theory Spec2Isabelle
  imports Complex_Main
begin

section \<open>Session bootstrap and cache of the Conduit end-to-end suite\<close>

text \<open>
  The development embeds the authenticated-session bootstrap of the test suite:
  \<^item> \<^verbatim>\<open>SessionManager\<close> (the on-disk cache of credentials and storage state and the two
    session establishers),
  \<^item> \<^verbatim>\<open>LoginPage\<close>, \<^verbatim>\<open>SignupPage\<close>, \<^verbatim>\<open>UIAssertions\<close> and \<^verbatim>\<open>ApiHelper.login\<close>,
  \<^item> the fixtures \<^verbatim>\<open>testCredentials\<close> and \<^verbatim>\<open>authenticatedPage\<close>.

  The browser, the remote application and the random data generator are not part of the
  program. They are an environment that answers every external call; the theorems hold
  for every environment unless a hypothesis says otherwise.
\<close>

subsection \<open>JSON values and JavaScript truthiness\<close>

text \<open>
  What \<^verbatim>\<open>JSON.parse\<close> returns. Numbers are the (finite) doubles of the runtime, kept
  as rationals: only the test against zero is ever used.
\<close>

datatype json =
    JNull
  | JBool bool
  | JNum rat
  | JStr string
  | JArr "json list"
  | JObj "(string \<times> json) list"

text \<open>A property read yields \<open>None\<close> for JavaScript's \<^verbatim>\<open>undefined\<close>.\<close>

fun truthy :: "json option \<Rightarrow> bool" where
  "truthy None = False"
| "truthy (Some JNull) = False"
| "truthy (Some (JBool b)) = b"
| "truthy (Some (JNum n)) = (n \<noteq> 0)"
| "truthy (Some (JStr s)) = (s \<noteq> [])"
| "truthy (Some (JArr xs)) = True"
| "truthy (Some (JObj kvs)) = True"

datatype error = Error string

text \<open>
  \<^verbatim>\<open>parsed.email\<close> and \<^verbatim>\<open>parsed.password\<close>: reading a named data property of a parsed
  JSON value. Reading from \<^verbatim>\<open>null\<close> raises a TypeError; objects answer from their own
  entries; every other value has no such property.
\<close>

fun field :: "json \<Rightarrow> string \<Rightarrow> error + json option" where
  "field JNull k = Inl (Error ''TypeError: Cannot read properties of null'')"
| "field (JObj kvs) k = Inr (map_of kvs k)"
| "field v k = Inr None"

text \<open>
  The interface \<^verbatim>\<open>UserCredentials\<close>. TypeScript erases the declared \<^verbatim>\<open>string\<close> types, and
  \<^verbatim>\<open>getStoredCredentials\<close> hands on whatever the file held, so the fields carry JSON values;
  a well-typed pair is a pair of \<open>JStr\<close>.
\<close>

record UserCredentials =
  email :: json
  password :: json

subsection \<open>Strings\<close>

text \<open>
  A JavaScript string is the list of its UTF-16 code units. A \<^typ>\<open>char\<close> stands for the code
  unit of the same number, so the strings of the model are those over the code units 0 to
  255 (ASCII and Latin-1), and every statement below is about such strings.
\<close>

subsection \<open>The environment\<close>

text \<open>
  A file of the cache directory, as far as the program can tell files apart: one that
  cannot be read, one whose text \<^verbatim>\<open>JSON.parse\<close> rejects, and one whose text parses to a
  value.
\<close>

datatype cache_file = Unreadable | Malformed | Holds json

datatype marker = ProfileLink | SettingsLink | NewArticleLink | SignInLink

text \<open>The body of an HTTP response as \<^verbatim>\<open>response.json()\<close> delivers it.\<close>

datatype body = Unparsable string | Parsed json

record response =
  ok :: bool
  status :: string
  statusText :: string
  rawText :: "string option"
  payload :: body

record SignupData =
  username :: string
  signupEmail :: string
  signupPassword :: string

text \<open>
  Every external call is issued at an instant, the number of calls issued before it. The
  environment says, for each instant, whether the call issued then rejects (and with
  which message) and what it would deliver.

  The JSON library of the runtime is part of the environment too. The program writes the
  text \<^verbatim>\<open>JSON.stringify(credentials, null, 2)\<close> and later hands the text of the file to
  \<^verbatim>\<open>JSON.parse\<close>; \<open>jsonRoundTrip\<close> is what \<^verbatim>\<open>JSON.parse\<close> makes of the text that
  \<^verbatim>\<open>JSON.stringify\<close> produces for a pair, \<open>None\<close> when it rejects it. Nothing is assumed of
  it: a theorem that needs the two to be inverse says so.
\<close>

record env =
  rejection :: "nat \<Rightarrow> string option"
  markerVisible :: "marker \<Rightarrow> nat \<Rightarrow> bool"
  pageClosed :: "nat \<Rightarrow> bool"
  buttonDisabled :: "nat \<Rightarrow> bool"
  currentUrl :: "nat \<Rightarrow> string"
  elementText :: "nat \<Rightarrow> string option"
  inputText :: "nat \<Rightarrow> string"
  httpResponse :: "nat \<Rightarrow> response"
  snapshot :: "nat \<Rightarrow> string"
  faker :: "nat \<Rightarrow> SignupData"
  processEnv :: "string \<Rightarrow> string option"
  jsonRoundTrip :: "UserCredentials \<Rightarrow> json option"

subsection \<open>The world: files, browser resources and the trace\<close>

text \<open>
  The requests that change the cache directory. The file system can refuse each of them
  (a write-protected directory or file, a directory in the place of the file, a full
  disk), and the call then throws.
\<close>

datatype fs_request = MakeDirectory | WriteCredentials | UnlinkCredentials | UnlinkStorageState

datatype proc = Bootstrap | ApiStrategy | UiStrategy | SignupAttempt | DeleteStorageState

datatype call =
    Goto string
  | Reload
  | WaitForLoadState string
  | WaitForTimeout nat
  | WaitForURL string
  | WaitForVisible string
  | ExpectVisible string
  | ExpectEnabled string
  | IsVisible marker
  | IsDisabled string
  | IsClosed
  | Url
  | Fill string json
  | Click string
  | InputValue string
  | TextContent string
  | Evaluate string
  | StorageState
  | HttpPost string nat
  | Sleep nat
  | NewContext "string option"
  | NewPage nat
  | CloseContext nat
  | ClosePage nat
  | Faker

text \<open>
  What a run leaves in the trace: the external calls as they are issued, the console
  output, the effects on files and browser resources, the verdicts of the validator, and
  the entry into the procedures that the properties count, with their normal return or
  the error they throw.
\<close>

datatype event =
    Call call
  | Console string
  | Enter proc
  | Return proc
  | Thrown proc error
  | Verdict nat bool
  | ContextOpened nat "string option"
  | PageOpened nat nat
  | DirectoryCreated
  | SnapshotWritten nat
  | SnapshotDeleted
  | CredentialsWritten
  | CredentialsDeleted
  | TokenSet

text \<open>
  \<open>contexts\<close> lists every browser context ever opened, in order, with \<open>True\<close> while it is
  open; its index is the context's identity. \<open>pages\<close> does the same for pages, each with
  its owning context. \<open>refusal\<close> is the error, if any, with which the file system answers a
  request that changes the cache directory; the program has no means to change it. \<open>authToken\<close> is the field of the \<^verbatim>\<open>ApiHelper\<close> instance. \<open>locals\<close> holds
  the \<^verbatim>\<open>let\<close> variables that a \<^verbatim>\<open>try\<close> block reassigns and its handler reads
  (\<^verbatim>\<open>context\<close>, \<^verbatim>\<open>page\<close>, \<^verbatim>\<open>bootstrapContext\<close>). The trace holds the newest event first.
\<close>

record world =
  clock :: nat
  contexts :: "bool list"
  pages :: "(nat \<times> bool) list"
  storageDir :: bool
  storageState :: "string option"
  credentialsFile :: "cache_file option"
  refusal :: "fs_request \<Rightarrow> string option"
  authToken :: "json option"
  locals :: "string \<Rightarrow> nat"
  trace :: "event list"

subsection \<open>Programs: state, exceptions, \<^verbatim>\<open>try\<close>/\<^verbatim>\<open>catch\<close>/\<^verbatim>\<open>finally\<close>\<close>

type_synonym 'a prog = "env \<Rightarrow> world \<Rightarrow> (error + 'a) \<times> world"

definition return :: "'a \<Rightarrow> 'a prog" where
  "return x = (\<lambda>e w. (Inr x, w))"

definition throw :: "error \<Rightarrow> 'a prog" where
  "throw err = (\<lambda>e w. (Inl err, w))"

definition bind :: "'a prog \<Rightarrow> ('a \<Rightarrow> 'b prog) \<Rightarrow> 'b prog" where
  "bind m f = (\<lambda>e w. case m e w of
      (Inl err, w') \<Rightarrow> (Inl err, w')
    | (Inr x, w') \<Rightarrow> f x e w')"

definition seq :: "'a prog \<Rightarrow> 'b prog \<Rightarrow> 'b prog" where
  "seq m k = bind m (\<lambda>_. k)"

text \<open>A block of statements, run in order; the first that throws ends the block.\<close>

fun block :: "unit prog list \<Rightarrow> unit prog" where
  "block [] = return ()"
| "block (m # ms) = seq m (block ms)"

definition try_catch :: "'a prog \<Rightarrow> (error \<Rightarrow> 'a prog) \<Rightarrow> 'a prog" where
  "try_catch m h = (\<lambda>e w. case m e w of
      (Inl err, w') \<Rightarrow> h err e w'
    | (Inr x, w') \<Rightarrow> (Inr x, w'))"

text \<open>
  \<^verbatim>\<open>try { m } finally { fin }\<close>: the finaliser runs on both exits, and an exception of the
  finaliser replaces the outcome of the body.
\<close>

definition try_finally :: "'a prog \<Rightarrow> unit prog \<Rightarrow> 'a prog" where
  "try_finally m fin = (\<lambda>e w. case m e w of (r, w') \<Rightarrow>
     (case fin e w' of
        (Inl err, w'') \<Rightarrow> (Inl err, w'')
      | (Inr u, w'') \<Rightarrow> (r, w'')))"

text \<open>\<^verbatim>\<open>p.catch(() => {})\<close> and \<^verbatim>\<open>p.catch(() => false)\<close>.\<close>

definition swallow :: "unit prog \<Rightarrow> unit prog" where
  "swallow m = try_catch m (\<lambda>err. return ())"

definition or_false :: "bool prog \<Rightarrow> bool prog" where
  "or_false m = try_catch m (\<lambda>err. return False)"

definition emit :: "event \<Rightarrow> unit prog" where
  "emit ev = (\<lambda>e w. (Inr (), w\<lparr>trace := ev # trace w\<rparr>))"

definition modify :: "(world \<Rightarrow> world) \<Rightarrow> unit prog" where
  "modify f = (\<lambda>e w. (Inr (), f w))"

definition inspect :: "(world \<Rightarrow> 'a) \<Rightarrow> 'a prog" where
  "inspect f = (\<lambda>e w. (Inr (f w), w))"

text \<open>Reading the environment: the process environment, the libraries of the runtime.\<close>

definition reader :: "(env \<Rightarrow> 'a) \<Rightarrow> 'a prog" where
  "reader f = (\<lambda>e w. (Inr (f e), w))"

text \<open>
  A procedure whose entry and exit are logged. The log is all that is added: the
  procedure returns what its body returns and throws what its body throws.
\<close>

definition traced :: "proc \<Rightarrow> 'a prog \<Rightarrow> 'a prog" where
  "traced p body =
     seq (emit (Enter p))
       (try_catch (bind body (\<lambda>x. seq (emit (Return p)) (return x)))
                  (\<lambda>err. seq (emit (Thrown p err)) (throw err)))"

text \<open>
  An awaited call on the browser or the network: it is logged, the clock advances, and
  the environment decides between rejection and the delivered value.
\<close>

definition await :: "call \<Rightarrow> (env \<Rightarrow> nat \<Rightarrow> 'a) \<Rightarrow> 'a prog" where
  "await c deliver = (\<lambda>e w.
     let w' = w\<lparr>clock := Suc (clock w), trace := Call c # trace w\<rparr> in
     case rejection e (clock w) of
       Some msg \<Rightarrow> (Inl (Error msg), w')
     | None \<Rightarrow> (Inr (deliver e (clock w)), w'))"

definition perform :: "call \<Rightarrow> unit prog" where
  "perform c = await c (\<lambda>e t. ())"

text \<open>A synchronous query of the browser (\<^verbatim>\<open>page.isClosed()\<close>, \<^verbatim>\<open>page.url()\<close>): it cannot reject.\<close>

definition query :: "call \<Rightarrow> (env \<Rightarrow> nat \<Rightarrow> 'a) \<Rightarrow> 'a prog" where
  "query c deliver = (\<lambda>e w.
     (Inr (deliver e (clock w)), w\<lparr>clock := Suc (clock w), trace := Call c # trace w\<rparr>))"

subsection \<open>The session cache: \<^verbatim>\<open>SessionManager\<close>, file operations\<close>

text \<open>
  \<^verbatim>\<open>fs.mkdirSync\<close>, \<^verbatim>\<open>fs.writeFileSync\<close> and \<^verbatim>\<open>fs.unlinkSync\<close> throw when the file system
  refuses the request, and then change nothing. \<^verbatim>\<open>fs.existsSync\<close> never throws.
\<close>

definition fsRequest :: "fs_request \<Rightarrow> unit prog" where
  "fsRequest request = (\<lambda>e w.
     case refusal w request of
       Some msg \<Rightarrow> (Inl (Error msg), w)
     | None \<Rightarrow> (Inr (), w))"

definition storageStateExists :: "bool prog" where
  "storageStateExists = inspect (\<lambda>w. storageState w \<noteq> None)"

definition deleteStoredCredentials :: "unit prog" where
  "deleteStoredCredentials =
     bind (inspect (\<lambda>w. credentialsFile w \<noteq> None)) (\<lambda>present.
       if present
       then block [fsRequest UnlinkCredentials,
                   modify (\<lambda>w. w\<lparr>credentialsFile := None\<rparr>),
                   emit CredentialsDeleted]
       else return ())"

definition deleteStorageState :: "unit prog" where
  "deleteStorageState =
     block [
       emit (Enter DeleteStorageState),
       bind storageStateExists (\<lambda>present.
         if present
         then block [fsRequest UnlinkStorageState,
                     modify (\<lambda>w. w\<lparr>storageState := None\<rparr>),
                     emit SnapshotDeleted]
         else return ()),
       deleteStoredCredentials]"

definition ensureStorageDirectory :: "unit prog" where
  "ensureStorageDirectory =
     bind (inspect storageDir) (\<lambda>present.
       if \<not> present
       then block [fsRequest MakeDirectory,
                   modify (\<lambda>w. w\<lparr>storageDir := True\<rparr>),
                   emit DirectoryCreated]
       else return ())"

text \<open>
  \<^verbatim>\<open>JSON.stringify(credentials, null, 2)\<close>. A text is kept as what a reader will get from
  it: the value \<^verbatim>\<open>JSON.parse\<close> makes of it, or \<open>Malformed\<close>.
\<close>

definition JSON_stringify :: "UserCredentials \<Rightarrow> cache_file prog" where
  "JSON_stringify credentials =
     reader (\<lambda>e. case jsonRoundTrip e credentials of
                   None \<Rightarrow> Malformed
                 | Some v \<Rightarrow> Holds v)"

text \<open>
  \<^verbatim>\<open>fs.writeFileSync(CREDENTIALS_PATH, text)\<close>. A write replaces the content of the file and
  keeps its permissions: a file that the process could not read before the write it
  cannot read after it. A file that the write creates is readable.
\<close>

definition writeFileSync :: "cache_file \<Rightarrow> unit prog" where
  "writeFileSync text =
     block [fsRequest WriteCredentials,
            modify (\<lambda>w. w\<lparr>credentialsFile :=
                             Some (case credentialsFile w of
                                     Some Unreadable \<Rightarrow> Unreadable
                                   | _ \<Rightarrow> text)\<rparr>),
            emit CredentialsWritten]"

definition saveCredentials :: "UserCredentials \<Rightarrow> unit prog" where
  "saveCredentials credentials =
     seq ensureStorageDirectory
         (bind (JSON_stringify credentials) writeFileSync)"

definition readFileSync :: "cache_file \<Rightarrow> cache_file prog" where
  "readFileSync f = (case f of
       Unreadable \<Rightarrow> throw (Error ''EACCES: permission denied, open credentials.json'')
     | _ \<Rightarrow> return f)"

definition JSON_parse :: "cache_file \<Rightarrow> json prog" where
  "JSON_parse raw = (case raw of
       Holds v \<Rightarrow> return v
     | _ \<Rightarrow> throw (Error ''SyntaxError: Unexpected token in JSON''))"

definition property :: "json \<Rightarrow> string \<Rightarrow> json option prog" where
  "property v k = (case field v k of Inl err \<Rightarrow> throw err | Inr x \<Rightarrow> return x)"

text \<open>\<^verbatim>\<open>v?.k\<close>: the optional chain reads nothing from \<^verbatim>\<open>null\<close>.\<close>

definition optional :: "json \<Rightarrow> string \<Rightarrow> json option prog" where
  "optional v k = (case v of JNull \<Rightarrow> return None | _ \<Rightarrow> property v k)"

definition getStoredCredentials :: "UserCredentials option prog" where
  "getStoredCredentials =
     bind (inspect credentialsFile) (\<lambda>f.
       case f of
         None \<Rightarrow> return None
       | Some content \<Rightarrow>
           try_catch
             (bind (readFileSync content) (\<lambda>raw.
              bind (JSON_parse raw) (\<lambda>parsed.
              bind (property parsed ''email'') (\<lambda>em.
              bind (property parsed ''password'') (\<lambda>pw.
                if truthy em \<and> truthy pw
                then return (Some \<lparr>email = the em, password = the pw\<rparr>)
                else return None)))))
             (\<lambda>err. seq (emit (Console ''Failed to read stored credentials:''))
                         (return None)))"

subsection \<open>Browser resources and local variables\<close>

text \<open>
  \<^verbatim>\<open>browser.newContext\<close> and \<^verbatim>\<open>context.newPage\<close> are awaited calls like the others: they can
  reject, and then nothing is opened. When they resolve they hand out a fresh identity.
  Closing may reject too (the source guards most closes with \<^verbatim>\<open>.catch\<close>), and releases the
  resource either way: a rejected close reports a target that is already gone. Closing a
  context closes its pages.
\<close>

definition openedContext :: "string option \<Rightarrow> nat prog" where
  "openedContext state = (\<lambda>e w.
     (Inr (length (contexts w)),
      w\<lparr>contexts := contexts w @ [True],
        trace := ContextOpened (length (contexts w)) state # trace w\<rparr>))"

definition newContext :: "string option \<Rightarrow> nat prog" where
  "newContext state = seq (perform (NewContext state)) (openedContext state)"

definition openedPage :: "nat \<Rightarrow> nat prog" where
  "openedPage context = (\<lambda>e w.
     (Inr (length (pages w)),
      w\<lparr>pages := pages w @ [(context, True)],
        trace := PageOpened (length (pages w)) context # trace w\<rparr>))"

definition newPage :: "nat \<Rightarrow> nat prog" where
  "newPage context = seq (perform (NewPage context)) (openedPage context)"

definition closeContext :: "nat \<Rightarrow> unit prog" where
  "closeContext context =
     seq (modify (\<lambda>w. w\<lparr>contexts := (contexts w)[context := False],
                          pages := map (\<lambda>(owner, opn). (owner, opn \<and> owner \<noteq> context)) (pages w)\<rparr>))
         (perform (CloseContext context))"

definition closePage :: "nat \<Rightarrow> unit prog" where
  "closePage page =
     seq (modify (\<lambda>w. w\<lparr>pages := (pages w)[page := (fst (pages w ! page), False)]\<rparr>))
         (perform (ClosePage page))"

definition assign :: "string \<Rightarrow> nat \<Rightarrow> unit prog" where
  "assign name v = modify (\<lambda>w. w\<lparr>locals := (locals w)(name := v)\<rparr>)"

definition deref :: "string \<Rightarrow> nat prog" where
  "deref name = inspect (\<lambda>w. locals w name)"

subsection \<open>String operations\<close>

fun startsWith :: "string \<Rightarrow> string \<Rightarrow> bool" where
  "startsWith s [] = True"
| "startsWith [] (c # cs) = False"
| "startsWith (x # xs) (c # cs) = (x = c \<and> startsWith xs cs)"

fun str_includes :: "string \<Rightarrow> string \<Rightarrow> bool" where
  "str_includes [] sub = (sub = [])"
| "str_includes (x # xs) sub = (startsWith (x # xs) sub \<or> str_includes xs sub)"

text \<open>
  \<^verbatim>\<open>s.trim().length === 0\<close>: every code unit of \<open>s\<close> is white space or a line terminator.
  Below 256 these are the tab, the line feed, the vertical tab, the form feed, the carriage
  return, the space and the no-break space U+00A0; the others that \<^verbatim>\<open>trim\<close> strips (U+1680,
  U+2000 to U+200A, U+2028, U+2029, U+202F, U+205F, U+3000, U+FEFF) lie above.
\<close>

definition whiteSpace :: "char list" where
  "whiteSpace = [CHR 0x09, CHR 0x0A, CHR 0x0B, CHR 0x0C, CHR 0x0D, CHR 0x20, CHR 0xA0]"

definition blank :: "string \<Rightarrow> bool" where
  "blank s = list_all (\<lambda>c. c \<in> set whiteSpace) s"

text \<open>
  \<^verbatim>\<open>${error}\<close> in a template string. Every error is an \<^verbatim>\<open>Error\<close> object and renders as
  its name and message.
\<close>

fun render :: "error \<Rightarrow> string" where
  "render (Error msg) = ''Error: '' @ msg"

subsection \<open>\<^verbatim>\<open>UIAssertions\<close>\<close>

definition assertFormInputReady :: "string \<Rightarrow> unit prog" where
  "assertFormInputReady locator =
     block [perform (ExpectVisible locator), perform (ExpectEnabled locator)]"

definition assertFormFieldValue :: "string \<Rightarrow> json \<Rightarrow> unit prog" where
  "assertFormFieldValue locator expectedValue =
     bind (await (InputValue locator) inputText) (\<lambda>actualValue.
       if JStr actualValue = expectedValue then return ()
       else throw (Error ''expect(received).toBe(expected)''))"

definition assertButtonReady :: "string \<Rightarrow> unit prog" where
  "assertButtonReady locator =
     block [perform (ExpectVisible locator), perform (ExpectEnabled locator)]"

definition assertPageNavigation :: "string \<Rightarrow> unit prog" where
  "assertPageNavigation condition = perform (WaitForURL condition)"

definition assertErrorMessage :: "string \<Rightarrow> unit prog" where
  "assertErrorMessage errorMessageLocator =
     seq (perform (ExpectVisible errorMessageLocator))
       (bind (await (TextContent errorMessageLocator) elementText) (\<lambda>errorText.
          case errorText of
            None \<Rightarrow> throw (Error ''expect(received).toBeTruthy()'')
          | Some t \<Rightarrow>
              if t = [] then throw (Error ''expect(received).toBeTruthy()'')
              else if blank t then throw (Error ''expect(received).toBeGreaterThan(expected)'')
              else return ()))"

subsection \<open>\<^verbatim>\<open>LoginPage\<close>\<close>

text \<open>
  The validator. \<open>probeMarkers\<close> is the body of its \<^verbatim>\<open>try\<close>: the four probes are each
  guarded by \<^verbatim>\<open>.catch(() => false)\<close>. The whole body is guarded by \<^verbatim>\<open>catch { return false }\<close>.
  The event \<open>Verdict\<close> records what the call returned.
\<close>

definition probeMarkers :: "bool prog" where
  "probeMarkers =
     seq (perform (WaitForTimeout 1000))
     (bind (or_false (await (IsVisible ProfileLink) (\<lambda>e. markerVisible e ProfileLink))) (\<lambda>hasProfile.
      bind (or_false (await (IsVisible SettingsLink) (\<lambda>e. markerVisible e SettingsLink))) (\<lambda>hasSettings.
      bind (or_false (await (IsVisible NewArticleLink) (\<lambda>e. markerVisible e NewArticleLink))) (\<lambda>hasNewArticle.
      bind (or_false (await (IsVisible SignInLink) (\<lambda>e. markerVisible e SignInLink))) (\<lambda>hasSignIn.
        return ((hasProfile \<or> hasSettings \<or> hasNewArticle) \<and> \<not> hasSignIn))))))"

definition isLoggedIn :: "nat \<Rightarrow> bool prog" where
  "isLoggedIn page =
     bind (try_catch probeMarkers (\<lambda>err. return False))
       (\<lambda>verdict. seq (emit (Verdict page verdict)) (return verdict))"

definition getErrorMessage :: "string prog" where
  "getErrorMessage =
     bind (await (TextContent ''.error-messages'') elementText) (\<lambda>t.
       return (case t of None \<Rightarrow> [] | Some s \<Rightarrow> s))"

text \<open>\<^verbatim>\<open>if (!v || v.trim().length === 0) throw new Error(msg)\<close>\<close>

definition requireText :: "json \<Rightarrow> string \<Rightarrow> unit prog" where
  "requireText v msg =
     (if \<not> truthy (Some v) then throw (Error msg)
      else case v of
             JStr s \<Rightarrow> if blank s then throw (Error msg) else return ()
           | _ \<Rightarrow> throw (Error ''TypeError: trim is not a function''))"

text \<open>
  \<^verbatim>\<open>while (await button.isDisabled() && attempts < limit) { wait; attempts++ }\<close>: the button
  is asked before the counter is compared, so it is asked once more when the counter has
  reached the limit, and that answer is not used.
\<close>

function whileDisabled :: "string \<Rightarrow> nat \<Rightarrow> nat \<Rightarrow> nat \<Rightarrow> unit prog" where
  "whileDisabled button limit pause attempts =
     (if attempts < limit
      then bind (await (IsDisabled button) buttonDisabled) (\<lambda>disabled.
             if disabled
             then seq (perform (WaitForTimeout pause))
                      (whileDisabled button limit pause (Suc attempts))
             else return ())
      else bind (await (IsDisabled button) buttonDisabled) (\<lambda>disabled. return ()))"
  by pat_completeness auto
termination
  by (relation "measure (\<lambda>(button, limit, pause, attempts). limit - attempts)") auto

declare whileDisabled.simps [simp del]

definition LoginPage_login :: "nat \<Rightarrow> json \<Rightarrow> json \<Rightarrow> unit prog" where
  "LoginPage_login page em pw =
     try_catch
       (block [
          requireText em ''Email is required for login'',
          requireText pw ''Password is required for login'',
          assertFormInputReady ''emailInput'',
          assertFormInputReady ''passwordInput'',
          perform (Fill ''emailInput'' em),
          perform (WaitForTimeout 300),
          assertFormFieldValue ''emailInput'' em,
          perform (Fill ''passwordInput'' pw),
          perform (WaitForTimeout 300),
          perform (WaitForVisible ''signInButton''),
          perform (WaitForTimeout 500),
          assertButtonReady ''signInButton'',
          whileDisabled ''signInButton'' 20 300 0,
          perform (WaitForTimeout 500),
          perform (Click ''signInButton''),
          try_catch
            (block [
               perform (WaitForURL ''not /login''),
               assertPageNavigation ''not /login'',
               perform (WaitForLoadState ''networkidle''),
               emit (Console ''Login successful'')])
            (\<lambda>err. bind getErrorMessage (\<lambda>errorMsg.
               if errorMsg \<noteq> []
               then seq (assertErrorMessage ''.error-messages'')
                        (throw (Error (''Login failed: '' @ errorMsg)))
               else throw (Error ''Login failed - still on login page'')))])
       (\<lambda>error. throw error)"

subsection \<open>\<^verbatim>\<open>SignupPage\<close>\<close>

definition signUp :: "nat \<Rightarrow> string \<Rightarrow> string \<Rightarrow> string \<Rightarrow> unit prog" where
  "signUp page uname mail pw =
     block [
       perform (Fill ''usernameInput'' (JStr uname)),
       perform (Fill ''emailInput'' (JStr mail)),
       perform (Fill ''passwordInput'' (JStr pw)),
       perform (WaitForVisible ''signUpButton''),
       whileDisabled ''signUpButton'' 10 200 0,
       perform (Click ''signUpButton''),
       try_catch
         (perform (WaitForURL ''not /register''))
         (\<lambda>err. bind getErrorMessage (\<lambda>errorMsg.
            if errorMsg \<noteq> [] then throw (Error (''Signup failed: '' @ errorMsg))
            else return ())),
       perform (WaitForLoadState ''networkidle'')]"

subsection \<open>Configuration read from the process environment\<close>

text \<open>\<^verbatim>\<open>process.env.NAME === 'true'\<close>\<close>

definition flag :: "string \<Rightarrow> env \<Rightarrow> bool" where
  "flag name e = (processEnv e name = Some ''true'')"

text \<open>\<^verbatim>\<open>process.env.NAME || fallback\<close>: an unset and an empty variable both give the fallback.\<close>

definition orElse :: "string option \<Rightarrow> string \<Rightarrow> string" where
  "orElse v fallback = (case v of None \<Rightarrow> fallback | Some s \<Rightarrow> if s = [] then fallback else s)"

definition TEST_CREDENTIALS :: "env \<Rightarrow> UserCredentials" where
  "TEST_CREDENTIALS e =
     \<lparr>email = JStr (orElse (processEnv e ''TEST_EMAIL'') ''nuruddinkawsar1995@gmail.com''),
      password = JStr (orElse (processEnv e ''TEST_PASSWORD'') ''1234kawsar@'')\<rparr>"

definition isCI :: "env \<Rightarrow> bool" where
  "isCI e = flag ''CI'' e"

definition skipApiBootstrap :: "env \<Rightarrow> bool" where
  "skipApiBootstrap e = flag ''SKIP_API_BOOTSTRAP'' e"

definition useApiBootstrap :: "env \<Rightarrow> bool" where
  "useApiBootstrap e = (\<not> isCI e \<and> \<not> skipApiBootstrap e)"

definition CONDUIT_BASE_URL :: string where
  "CONDUIT_BASE_URL = ''https://conduit.bondaracademy.com''"

subsection \<open>Decimal rendering of counters in messages\<close>

function str_of_nat :: "nat \<Rightarrow> string" where
  "str_of_nat n =
     (if n < 10 then [char_of (48 + n)]
      else str_of_nat (n div 10) @ [char_of (48 + n mod 10)])"
  by pat_completeness auto
termination
  by (relation "measure id") auto

declare str_of_nat.simps [simp del]

subsection \<open>\<^verbatim>\<open>ApiHelper.login\<close>\<close>

definition responseText :: "response \<Rightarrow> string prog" where
  "responseText r = (case rawText r of
       None \<Rightarrow> throw (Error ''response.text: body unavailable'')
     | Some t \<Rightarrow> return t)"

definition responseJson :: "response \<Rightarrow> json prog" where
  "responseJson r = (case payload r of
       Unparsable msg \<Rightarrow> throw (Error msg)
     | Parsed v \<Rightarrow> return v)"

definition maxRetries :: nat where
  "maxRetries = 3"

text \<open>The body of the \<^verbatim>\<open>try\<close> inside the retry loop: one request and its checks.\<close>

definition loginAttempt :: "UserCredentials \<Rightarrow> nat \<Rightarrow> json prog" where
  "loginAttempt credentials attempt =
     bind (await (HttpPost ''/users/login'' (30000 + attempt * 10000)) httpResponse) (\<lambda>resp.
       if \<not> ok resp
       then bind (try_catch (responseText resp)
                    (\<lambda>err. return ''Unable to read error response'')) (\<lambda>errorBody.
              let errorMessage = ''Login failed: '' @ status resp @ '' '' @ statusText resp;
                  detailedError = (if errorBody \<noteq> [] then errorMessage @ '' - '' @ errorBody
                                   else errorMessage)
              in throw (Error detailedError))
       else bind (try_catch (responseJson resp)
                    (\<lambda>parseError. throw (Error (''Failed to parse login response: ''
                                                  @ render parseError)))) (\<lambda>body.
            bind (property body ''user'') (\<lambda>user.
              if \<not> truthy user then throw (Error ''Login response missing user token'')
              else bind (property (the user) ''token'') (\<lambda>token.
                if \<not> truthy token then throw (Error ''Login response missing user token'')
                else seq (block [modify (\<lambda>w. w\<lparr>authToken := token\<rparr>),
                                 emit TokenSet,
                                 emit (Console ''Login successful'')])
                         (return body)))))"

text \<open>\<^verbatim>\<open>throw lastError || new Error('Login failed after retries')\<close>, the statement after the loop.\<close>

definition throwLast :: "error option \<Rightarrow> 'a prog" where
  "throwLast lastError = throw (case lastError of
       Some err \<Rightarrow> err
     | None \<Rightarrow> Error ''Login failed after retries'')"

text \<open>
  The \<^verbatim>\<open>for\<close> loop over \<open>attempt\<close>. A successful attempt returns from the function; a
  failed one records the error and either leaves the loop (\<^verbatim>\<open>break\<close> on the last attempt)
  or sleeps and goes round again.
\<close>

function loginRetry :: "UserCredentials \<Rightarrow> nat \<Rightarrow> error option \<Rightarrow> json prog" where
  "loginRetry credentials attempt lastError =
     (if attempt < maxRetries
      then try_catch (loginAttempt credentials attempt)
             (\<lambda>error.
                if attempt = maxRetries - 1 then throwLast (Some error)
                else seq (block [emit (Console (''Login attempt '' @ str_of_nat (attempt + 1)
                                                @ '' failed, retrying in ''
                                                @ str_of_nat (1000 * 2 ^ attempt) @ ''ms...'')),
                                 query (Sleep (1000 * 2 ^ attempt)) (\<lambda>e t. ())])
                         (loginRetry credentials (Suc attempt) (Some error)))
      else throwLast lastError)"
  by pat_completeness auto
termination
  by (relation "measure (\<lambda>(credentials, attempt, lastError). maxRetries - attempt)") auto

declare loginRetry.simps [simp del]

definition ApiHelper_login :: "UserCredentials \<Rightarrow> json prog" where
  "ApiHelper_login credentials =
     try_catch
       (if \<not> truthy (Some (email credentials)) \<or> \<not> truthy (Some (password credentials))
        then throw (Error ''Email and password are required for login'')
        else loginRetry credentials 0 None)
       (\<lambda>error. throw error)"

subsection \<open>\<^verbatim>\<open>SessionManager\<close>: the two session establishers\<close>

text \<open>\<^verbatim>\<open>await context.storageState({ path: STORAGE_STATE_PATH })\<close>\<close>

definition storageStateTo :: "nat \<Rightarrow> unit prog" where
  "storageStateTo context =
     bind (await StorageState snapshot) (\<lambda>snap.
       seq (modify (\<lambda>w. w\<lparr>storageState := Some snap\<rparr>))
           (emit (SnapshotWritten context)))"

text \<open>
  The UI-driven establisher. \<open>loginAndSnapshot\<close> is the body of its \<^verbatim>\<open>try\<close>. A block that may
  \<^verbatim>\<open>return\<close> from the function yields \<open>True\<close> when it has returned, and the statements
  after it run only on \<open>False\<close>.
\<close>

definition loginAndSnapshot :: "nat \<Rightarrow> UserCredentials \<Rightarrow> nat \<Rightarrow> unit prog" where
  "loginAndSnapshot context credentials page =
     seq (perform (Goto CONDUIT_BASE_URL))
     (seq (swallow (perform (WaitForLoadState ''load'')))
     (seq (perform (WaitForTimeout 2000))
     (bind (isLoggedIn page) (\<lambda>isAlreadyLoggedIn.
        if isAlreadyLoggedIn then storageStateTo context
        else
          seq (perform (Goto (CONDUIT_BASE_URL @ ''/login'')))
          (seq (swallow (perform (WaitForLoadState ''load'')))
          (seq (perform (WaitForTimeout 2000))
          (bind (query Url currentUrl) (\<lambda>url.
           bind (if \<not> str_includes url ''/login''
                 then bind (isLoggedIn page) (\<lambda>isLoggedInNow.
                        if isLoggedInNow then seq (storageStateTo context) (return True)
                        else seq (perform (Goto (CONDUIT_BASE_URL @ ''/login'')))
                            (seq (perform (WaitForTimeout 2000)) (return False)))
                 else return False) (\<lambda>returned.
           if returned then return ()
           else
             bind (try_catch
                     (seq (perform (WaitForVisible ''emailInput'')) (return False))
                     (\<lambda>error. bind (isLoggedIn page) (\<lambda>isLoggedInCheck.
                        if isLoggedInCheck then seq (storageStateTo context) (return True)
                        else bind (query Url currentUrl) (\<lambda>u.
                               throw (Error (''Login form not found. Current URL: '' @ u
                                             @ ''. Error: '' @ render error)))))) (\<lambda>returned.
             if returned then return ()
             else
               block [
                 swallow (perform (WaitForLoadState ''networkidle'')),
                 perform (WaitForTimeout 1000),
                 LoginPage_login page (email credentials) (password credentials),
                 perform (WaitForTimeout 3000),
                 perform (Goto CONDUIT_BASE_URL),
                 perform (WaitForTimeout 2000),
                 bind (isLoggedIn page) (\<lambda>loggedIn.
                   if \<not> loggedIn
                   then bind getErrorMessage (\<lambda>errorMsg.
                          throw (Error (''Login failed - user not authenticated. ''
                                        @ (if errorMsg \<noteq> [] then ''Error: '' @ errorMsg
                                           else []))))
                   else return ()),
                 storageStateTo context]))))))))))"

definition createAuthenticatedSession :: "nat \<Rightarrow> UserCredentials \<Rightarrow> unit prog" where
  "createAuthenticatedSession context credentials =
     traced UiStrategy
       (bind (newPage context) (\<lambda>page.
          try_finally (loginAndSnapshot context credentials page) (closePage page)))"

text \<open>The API-driven establisher. \<open>injectAndSnapshot\<close> is the body of its \<^verbatim>\<open>try\<close>.\<close>

definition injectAndSnapshot :: "nat \<Rightarrow> unit prog" where
  "injectAndSnapshot context =
     block [
       perform (Goto CONDUIT_BASE_URL),
       perform (WaitForLoadState ''networkidle''),
       perform (Evaluate ''localStorage and sessionStorage: token, user''),
       perform Reload,
       perform (WaitForLoadState ''networkidle''),
       perform (WaitForTimeout 2000),
       storageStateTo context]"

definition createAuthenticatedSessionViaAPI :: "nat \<Rightarrow> UserCredentials \<Rightarrow> unit prog" where
  "createAuthenticatedSessionViaAPI context credentials =
     traced ApiStrategy
       (bind (ApiHelper_login credentials) (\<lambda>loginResponse.
        bind (inspect authToken) (\<lambda>token.
        bind (optional loginResponse ''user'') (\<lambda>userData.
          if \<not> truthy token then throw (Error ''Failed to obtain authentication token'')
          else bind (newPage context) (\<lambda>page.
            try_finally (injectAndSnapshot context) (closePage page))))))"

subsection \<open>\<^verbatim>\<open>TestDataGenerator.generateSignupData\<close>\<close>

text \<open>
  The random generator delivers a user name, an email and a password. The user name is
  lower-cased, stripped of everything but \<^verbatim>\<open>a-z0-9\<close> and cut to 20 characters.
\<close>

definition toLowerCase :: "string \<Rightarrow> string" where
  "toLowerCase s = map (\<lambda>c. let n = (of_char c :: nat) in
                               if (65 \<le> n \<and> n \<le> 90) \<or> (192 \<le> n \<and> n \<le> 222 \<and> n \<noteq> 215)
                               then char_of (n + 32) else c) s"

definition lowerAlnum :: "char \<Rightarrow> bool" where
  "lowerAlnum c = (let n = (of_char c :: nat) in (97 \<le> n \<and> n \<le> 122) \<or> (48 \<le> n \<and> n \<le> 57))"

definition generateSignupData :: "SignupData prog" where
  "generateSignupData =
     bind (query Faker faker) (\<lambda>raw.
       return \<lparr>username = take 20 (filter lowerAlnum (toLowerCase (username raw))),
               signupEmail = signupEmail raw,
               signupPassword = signupPassword raw\<rparr>)"

subsection \<open>The fixture \<^verbatim>\<open>testCredentials\<close>\<close>

definition maxSignupRetries :: nat where
  "maxSignupRetries = 3"

text \<open>
  The idiom that replaces a lost page, written out five times in the fixture:
  \<^verbatim>\<open>await context.close().catch(() => {}); context = await browser.newContext();
  page = await context.newPage(); signupPage = new SignupPage(page);\<close>
\<close>

definition recreate :: "unit prog" where
  "recreate =
     block [
       bind (deref ''testCredentials.context'') (\<lambda>c. swallow (closeContext c)),
       bind (newContext None) (assign ''testCredentials.context''),
       bind (deref ''testCredentials.context'') (\<lambda>c.
         bind (newPage c) (assign ''testCredentials.page''))]"

text \<open>The \<^verbatim>\<open>try\<close> block of one signup attempt, up to \<^verbatim>\<open>signupSuccess = true\<close>.\<close>

definition signupTry :: "SignupData \<Rightarrow> unit prog" where
  "signupTry signupData =
     block [
       emit (Enter SignupAttempt),
       bind (query IsClosed pageClosed) (\<lambda>closed. if closed then recreate else return ()),
       perform (Goto ''https://conduit.bondaracademy.com/register''),
       swallow (perform (WaitForLoadState ''domcontentloaded'')),
       swallow (perform (WaitForLoadState ''networkidle'')),
       try_catch
         (bind (query IsClosed pageClosed) (\<lambda>closed.
            if \<not> closed then perform (WaitForTimeout 1000) else return ()))
         (\<lambda>waitError. recreate),
       bind (deref ''testCredentials.page'') (\<lambda>page.
         signUp page (username signupData) (signupEmail signupData) (signupPassword signupData)),
       try_catch
         (bind (query IsClosed pageClosed) (\<lambda>closed.
            if \<not> closed then perform (WaitForTimeout 3000) else return ()))
         (\<lambda>waitError. return ()),
       emit (Console (''Created new test user: '' @ signupEmail signupData)),
       emit (Return SignupAttempt)]"

text \<open>
  The \<^verbatim>\<open>catch\<close> block, entered with the counter already incremented. It yields the value
  of \<^verbatim>\<open>credentials\<close> after the block.
\<close>

definition signupCatch :: "nat \<Rightarrow> UserCredentials \<Rightarrow> UserCredentials prog" where
  "signupCatch signupRetries credentials =
     seq (emit (Console (''Signup attempt '' @ str_of_nat signupRetries @ '' failed:'')))
       (if signupRetries < maxSignupRetries
        then seq (try_catch
                    (bind (query IsClosed pageClosed) (\<lambda>closed.
                       if \<not> closed then perform (WaitForTimeout (2000 * signupRetries))
                       else recreate))
                    (\<lambda>waitError. recreate))
                 (return credentials)
        else seq (emit (Console ''Failed to create new user via signup after retries, using existing credentials''))
                 (reader TEST_CREDENTIALS))"

text \<open>
  \<^verbatim>\<open>while (!signupSuccess && signupRetries < maxSignupRetries)\<close>. A successful attempt sets
  \<^verbatim>\<open>signupSuccess\<close> and so leaves the loop with the credentials it had; a failed one goes
  through the \<^verbatim>\<open>catch\<close> block and round again.
\<close>

function signupLoop :: "SignupData \<Rightarrow> nat \<Rightarrow> UserCredentials \<Rightarrow> UserCredentials prog" where
  "signupLoop signupData signupRetries credentials =
     (if signupRetries < maxSignupRetries
      then try_catch
             (seq (signupTry signupData) (return credentials))
             (\<lambda>error. bind (signupCatch (Suc signupRetries) credentials) (\<lambda>credentials'.
                signupLoop signupData (Suc signupRetries) credentials'))
      else return credentials)"
  by pat_completeness auto
termination
  by (relation "measure (\<lambda>(signupData, signupRetries, credentials).
                           maxSignupRetries - signupRetries)") auto

declare signupLoop.simps [simp del]

definition testCredentials :: "UserCredentials prog" where
  "testCredentials =
     seq ensureStorageDirectory
     (bind getStoredCredentials (\<lambda>storedCredentials.
      bind (reader (flag ''FORCE_NEW_USER'')) (\<lambda>forceNewUser.
      bind (reader (flag ''USE_EXISTING_CREDENTIALS'')) (\<lambda>useExistingFlag.
        (if storedCredentials \<noteq> None \<and> \<not> forceNewUser then return (the storedCredentials)
         else
             if useExistingFlag then reader TEST_CREDENTIALS
             else
               bind generateSignupData (\<lambda>signupData.
               seq (bind (newContext None) (assign ''testCredentials.context''))
               (seq (bind (deref ''testCredentials.context'') (\<lambda>c.
                       bind (newPage c) (assign ''testCredentials.page'')))
               (bind (signupLoop signupData 0
                        \<lparr>email = JStr (signupEmail signupData),
                         password = JStr (signupPassword signupData)\<rparr>) (\<lambda>credentials.
                seq (bind (deref ''testCredentials.context'') (\<lambda>c. swallow (closeContext c)))
                (seq (saveCredentials credentials)
                     (return credentials)))))))))))"

subsection \<open>The fixture \<^verbatim>\<open>authenticatedPage\<close>\<close>

definition bootstrapStorageState :: "UserCredentials \<Rightarrow> unit prog" where
  "bootstrapStorageState testCreds =
     traced Bootstrap (block [
       bind (newContext None) (assign ''bootstrapContext''),
       try_finally
         (try_catch
            (bind (reader useApiBootstrap) (\<lambda>api.
             bind (deref ''bootstrapContext'') (\<lambda>bootstrapContext.
               if api then createAuthenticatedSessionViaAPI bootstrapContext testCreds
               else createAuthenticatedSession bootstrapContext testCreds)))
            (\<lambda>error. bind (reader useApiBootstrap) (\<lambda>api.
               if api
               then block [
                      emit (Console ''API session creation failed, falling back to UI login...''),
                      bind (deref ''bootstrapContext'') (\<lambda>c. swallow (closeContext c)),
                      bind (newContext None) (assign ''bootstrapContext''),
                      bind (deref ''bootstrapContext'') (\<lambda>bootstrapContext.
                        createAuthenticatedSession bootstrapContext testCreds)]
               else throw error)))
         (bind (deref ''bootstrapContext'') (\<lambda>c. swallow (closeContext c)))])"

definition ensureStorageState :: "UserCredentials \<Rightarrow> unit prog" where
  "ensureStorageState testCreds =
     bind (reader (flag ''REFRESH_STORAGE_STATE'')) (\<lambda>forceRefresh.
     bind storageStateExists (\<lambda>present.
       if \<not> present \<or> forceRefresh
       then seq (if forceRefresh then deleteStorageState else return ())
                (bootstrapStorageState testCreds)
       else return ()))"

definition createContextWithState :: "nat prog" where
  "createContextWithState = bind (inspect storageState) newContext"

definition maxAttempts :: nat where
  "maxAttempts = 2"

text \<open>The \<^verbatim>\<open>for\<close> loop of \<^verbatim>\<open>verifyAuthentication\<close>, with the \<^verbatim>\<open>throw\<close> that follows it.\<close>

function verifyLoop :: "UserCredentials \<Rightarrow> nat \<Rightarrow> unit prog" where
  "verifyLoop testCreds attempt =
     (if attempt \<le> maxAttempts
      then
        bind (deref ''authenticatedPage.page'') (\<lambda>page.
        seq (swallow (perform (Goto CONDUIT_BASE_URL)))
        (seq (swallow (perform (WaitForLoadState ''networkidle'')))
        (bind (or_false (isLoggedIn page)) (\<lambda>loggedIn.
           if loggedIn then return ()
           else
             seq (block [
               bind (reader useApiBootstrap) (\<lambda>api.
                 emit (Console (''Stored session is invalid (attempt '' @ str_of_nat attempt
                                @ ''), recreating via '' @ (if api then ''API'' else ''UI'')
                                @ '' login...''))),
               bind (deref ''authenticatedPage.context'') (\<lambda>c. swallow (closeContext c)),
               deleteStorageState,
               ensureStorageState testCreds,
               bind createContextWithState (assign ''authenticatedPage.context''),
               bind (deref ''authenticatedPage.context'') (\<lambda>c.
                 bind (newPage c) (assign ''authenticatedPage.page''))])
             (verifyLoop testCreds (Suc attempt))))))
      else throw (Error ''Failed to verify authenticated session after refreshing storage state.''))"
  by pat_completeness auto
termination
  by (relation "measure (\<lambda>(testCreds, attempt). Suc maxAttempts - attempt)") auto

declare verifyLoop.simps [simp del]

definition verifyAuthentication :: "UserCredentials \<Rightarrow> unit prog" where
  "verifyAuthentication testCreds = verifyLoop testCreds 1"

text \<open>The fixture up to and including \<^verbatim>\<open>use(page)\<close>, and its teardown.\<close>

definition authenticatedPage :: "UserCredentials \<Rightarrow> (nat \<Rightarrow> unit prog) \<Rightarrow> unit prog" where
  "authenticatedPage testCreds use =
     block [
       ensureStorageDirectory,
       ensureStorageState testCreds,
       bind createContextWithState (assign ''authenticatedPage.context''),
       bind (deref ''authenticatedPage.context'') (\<lambda>c.
         bind (newPage c) (assign ''authenticatedPage.page'')),
       verifyAuthentication testCreds,
       bind (deref ''authenticatedPage.page'') use,
       bind (deref ''authenticatedPage.context'') (\<lambda>c. swallow (closeContext c))]"

subsection \<open>Observations on runs\<close>

text \<open>A probe issued at an instant reports its marker: the call resolves, with \<open>True\<close>.\<close>

definition seen :: "env \<Rightarrow> marker \<Rightarrow> nat \<Rightarrow> bool" where
  "seen e m t = (rejection e t = None \<and> markerVisible e m t)"

text \<open>What the validator answers when it is started at instant \<open>t\<close>.\<close>

definition loggedInAt :: "env \<Rightarrow> nat \<Rightarrow> bool" where
  "loggedInAt e t \<longleftrightarrow>
     rejection e t = None
     \<and> (seen e ProfileLink (t + 1) \<or> seen e SettingsLink (t + 2) \<or> seen e NewArticleLink (t + 3))
     \<and> \<not> seen e SignInLink (t + 4)"

text \<open>
  The log of a run from \<open>w\<close> to \<open>w'\<close>, for a class \<open>Q\<close> of events: the events of the class
  that the trace of \<open>w'\<close> holds beyond those of \<open>w\<close>, oldest first. Traces only grow.
\<close>

definition emitted :: "(event \<Rightarrow> bool) \<Rightarrow> world \<Rightarrow> world \<Rightarrow> event list" where
  "emitted Q w w' =
     rev (take (length (filter Q (trace w')) - length (filter Q (trace w))) (filter Q (trace w')))"

text \<open>External calls and console output: the events that carry no effect on the cache.\<close>

fun chatter :: "event \<Rightarrow> bool" where
  "chatter (Call c) = True"
| "chatter (Console s) = True"
| "chatter ev = False"

definition quiet :: "(event \<Rightarrow> bool) \<Rightarrow> bool" where
  "quiet Q \<longleftrightarrow> (\<forall>ev. chatter ev \<longrightarrow> \<not> Q ev)"

text \<open>
  A component \<open>f\<close> of the world is stable when the clock and the trace do not enter it.
  \<open>elsewhere\<close> is the world without its clock and trace.
\<close>

definition stable :: "(world \<Rightarrow> 'b) \<Rightarrow> bool" where
  "stable f \<longleftrightarrow> (\<forall>w c tr. f (w\<lparr>clock := c, trace := tr\<rparr>) = f w)"

definition elsewhere :: "world \<Rightarrow> world" where
  "elsewhere w = w\<lparr>clock := 0, trace := []\<rparr>"

text \<open>
  The frame of a procedure: every event it adds to the trace is in \<open>P\<close>, and it leaves
  \<open>f\<close> as it was unless one of the events it added is in \<open>W\<close>.
\<close>

definition frame ::
  "(event \<Rightarrow> bool) \<Rightarrow> (event \<Rightarrow> bool) \<Rightarrow> (world \<Rightarrow> 'b) \<Rightarrow> world \<Rightarrow> world \<Rightarrow> bool" where
  "frame P W f w w' \<longleftrightarrow>
     (\<exists>tr. trace w' = tr @ trace w \<and> list_all P tr
           \<and> (list_all (\<lambda>ev. \<not> W ev) tr \<longrightarrow> f w' = f w))"

definition only ::
  "(event \<Rightarrow> bool) \<Rightarrow> (event \<Rightarrow> bool) \<Rightarrow> (world \<Rightarrow> 'b) \<Rightarrow> 'a prog \<Rightarrow> bool" where
  "only P W f m \<longleftrightarrow> (\<forall>e w. frame P W f w (snd (m e w)))"

text \<open>
  The log of a procedure: run from \<open>w\<close> in \<open>e\<close>, the procedure adds the events \<open>new\<close> of class
  \<open>Q\<close> (oldest first), and \<open>N\<close> holds of the value, the log and the final world if it returns,
  \<open>X\<close> of the error, the log and the final world if it throws.
\<close>

definition wp ::
  "(event \<Rightarrow> bool) \<Rightarrow> env \<Rightarrow> 'a prog \<Rightarrow> ('a \<Rightarrow> event list \<Rightarrow> world \<Rightarrow> bool)
     \<Rightarrow> (error \<Rightarrow> event list \<Rightarrow> world \<Rightarrow> bool) \<Rightarrow> world \<Rightarrow> bool" where
  "wp Q e m N X w \<longleftrightarrow>
     (\<exists>new. filter Q (trace (snd (m e w))) = rev new @ filter Q (trace w)
           \<and> (case fst (m e w) of
                 Inr x \<Rightarrow> N x new (snd (m e w))
               | Inl err \<Rightarrow> X err new (snd (m e w))))"

text \<open>The pages after a context is closed.\<close>

definition closed_by :: "nat \<Rightarrow> (nat \<times> bool) list \<Rightarrow> (nat \<times> bool) list" where
  "closed_by ctx ps = map (\<lambda>(owner, opn). (owner, opn \<and> owner \<noteq> ctx)) ps"

subsection \<open>Event classes and the logs the properties speak of\<close>

text \<open>
  Every event the UI-driven establisher can add between its entry and its exit when it
  works in context \<open>ctx\<close>, and every event the API-driven establisher can.
\<close>

fun uiEvent :: "nat \<Rightarrow> event \<Rightarrow> bool" where
  "uiEvent ctx (Call c) = True"
| "uiEvent ctx (Console s) = True"
| "uiEvent ctx (Verdict p b) = True"
| "uiEvent ctx (PageOpened p c) = (c = ctx)"
| "uiEvent ctx (SnapshotWritten c) = (c = ctx)"
| "uiEvent ctx ev = False"

fun apiEvent :: "nat \<Rightarrow> event \<Rightarrow> bool" where
  "apiEvent ctx (Call c) = True"
| "apiEvent ctx (Console s) = True"
| "apiEvent ctx TokenSet = True"
| "apiEvent ctx (PageOpened p c) = (c = ctx)"
| "apiEvent ctx (SnapshotWritten c) = (c = ctx)"
| "apiEvent ctx ev = False"


text \<open>Opening a page, a verdict of the validator, and a write of the snapshot file.\<close>

fun sessionEvent :: "event \<Rightarrow> bool" where
  "sessionEvent (PageOpened p c) = True"
| "sessionEvent (Verdict p b) = True"
| "sessionEvent (SnapshotWritten c) = True"
| "sessionEvent ev = False"

text \<open>
  \<open>uiChecks p ctx\<close>: a log of verdicts on page \<open>p\<close> in which a failed verdict is followed by
  another verdict or by nothing, and a passing verdict ends the log or is followed by
  exactly the write of the snapshot of \<open>ctx\<close>. So a write, if there is one, is the last event
  and comes directly after a passing verdict. \<open>uiPassed p ctx\<close>: such a log that does end
  with a passing verdict and the write.
\<close>

fun uiChecks :: "nat \<Rightarrow> nat \<Rightarrow> event list \<Rightarrow> bool" where
  "uiChecks p ctx [] = True"
| "uiChecks p ctx (Verdict q b # rest) =
     (q = p \<and> (if b then rest = [] \<or> rest = [SnapshotWritten ctx] else uiChecks p ctx rest))"
| "uiChecks p ctx (ev # rest) = False"

fun uiPassed :: "nat \<Rightarrow> nat \<Rightarrow> event list \<Rightarrow> bool" where
  "uiPassed p ctx (Verdict q b # rest) =
     (q = p \<and> (if b then rest = [SnapshotWritten ctx] else uiPassed p ctx rest))"
| "uiPassed p ctx evs = False"

text \<open>
  The log of the UI-driven establisher: nothing, when the page could not be opened (and then
  it has not passed); else the opening of its page and the checks on it.
\<close>

fun uiSession :: "nat \<Rightarrow> nat \<Rightarrow> bool \<Rightarrow> event list \<Rightarrow> bool" where
  "uiSession p ctx passed [] = (\<not> passed)"
| "uiSession p ctx passed (PageOpened q c # rest) =
     (q = p \<and> c = ctx \<and> (if passed then uiPassed p ctx rest else uiChecks p ctx rest))"
| "uiSession p ctx passed (ev # rest) = False"

subsection \<open>Browser resources in a run\<close>

text \<open>
  \<open>browser\<close>: the contexts, the pages and the variables that refer to them. \<open>settled ctx\<close>:
  what an establisher that works in \<open>ctx\<close> may leave behind, nothing new or one page of
  \<open>ctx\<close>, closed. \<open>released\<close>: the contexts that were there are as they were, and every
  context and every page that has been added is closed.
\<close>

definition browser :: "world \<Rightarrow> bool list \<times> (nat \<times> bool) list \<times> (string \<Rightarrow> nat)" where
  "browser w = (contexts w, pages w, locals w)"

definition settled :: "nat \<Rightarrow> world \<Rightarrow> world \<Rightarrow> bool" where
  "settled ctx w w' \<longleftrightarrow>
     contexts w' = contexts w \<and> locals w' = locals w
     \<and> (pages w' = pages w \<or> pages w' = pages w @ [(ctx, False)])"

definition released :: "world \<Rightarrow> world \<Rightarrow> bool" where
  "released w w' \<longleftrightarrow>
     take (length (contexts w)) (contexts w') = contexts w
     \<and> list_all (\<lambda>opn. \<not> opn) (drop (length (contexts w)) (contexts w'))
     \<and> list_all (\<lambda>(owner, opn). \<not> opn) (drop (length (pages w)) (pages w'))"

subsection \<open>The order of the strategies in a run\<close>


subsection \<open>Concrete inputs\<close>

text \<open>
  An environment in which every call resolves, no marker is visible, the login endpoint
  answers with a token and \<^verbatim>\<open>JSON.parse\<close> inverts \<^verbatim>\<open>JSON.stringify\<close>, and an empty world whose
  file system refuses nothing.
\<close>

definition quiet_env :: env where
  "quiet_env =
     \<lparr>rejection = (\<lambda>t. None),
      markerVisible = (\<lambda>m t. False),
      pageClosed = (\<lambda>t. False),
      buttonDisabled = (\<lambda>t. False),
      currentUrl = (\<lambda>t. ''https://conduit.bondaracademy.com/login''),
      elementText = (\<lambda>t. None),
      inputText = (\<lambda>t. ''user_12@test.com''),
      httpResponse = (\<lambda>t. \<lparr>ok = True, status = ''200'', statusText = ''OK'', rawText = None,
                             payload = Parsed (JObj [(''user'', JObj [(''token'', JStr ''jwt'')])])\<rparr>),
      snapshot = (\<lambda>t. ''cookies and localStorage''),
      faker = (\<lambda>t. \<lparr>username = ''User_12'', signupEmail = ''user_12@test.com'',
                      signupPassword = ''Sx9!aa2211qq''\<rparr>),
      processEnv = (\<lambda>name. None),
      jsonRoundTrip = (\<lambda>c. Some (JObj [(''email'', email c), (''password'', password c)]))\<rparr>"

definition fresh_world :: world where
  "fresh_world =
     \<lparr>clock = 0, contexts = [], pages = [], storageDir = False, storageState = None,
      credentialsFile = None, refusal = (\<lambda>request. None), authToken = None, locals = (\<lambda>name. 0), trace = []\<rparr>"

definition user_12 :: UserCredentials where
  "user_12 = \<lparr>email = JStr ''user_12@test.com'', password = JStr ''Sx9!aa2211qq''\<rparr>"

definition user_12_json :: json where
  "user_12_json = JObj [(''email'', email user_12), (''password'', password user_12)]"



text \<open>A world whose cache holds a snapshot and the credentials of the user.\<close>

definition cached_world :: world where
  "cached_world =
     fresh_world\<lparr>storageDir := True, storageState := Some ''cookies and localStorage'',
                 credentialsFile := Some (Holds user_12_json)\<rparr>"

text \<open>The same environment with the profile link always visible, and a world with one open context.\<close>

definition signed_in_env :: env where
  "signed_in_env = quiet_env\<lparr>markerVisible := (\<lambda>m t. m = ProfileLink)\<rparr>"

definition one_context :: world where
  "one_context = fresh_world\<lparr>contexts := [True]\<rparr>"

text \<open>
  An environment in which every marker is visible and the call at instant 4 rejects, and
  one in which the profile link alone is visible and the call at instant 0 rejects. A
  validator started at instant 0 waits at 0 and probes the sign-in link at 4.
\<close>

definition probe_rejects_env :: env where
  "probe_rejects_env =
     quiet_env\<lparr>rejection := (\<lambda>t. if t = 4 then Some ''Target closed'' else None),
               markerVisible := (\<lambda>m t. True)\<rparr>"

definition wait_rejects_env :: env where
  "wait_rejects_env =
     signed_in_env\<lparr>rejection := (\<lambda>t. if t = 0 then Some ''Target closed'' else None)\<rparr>"



section \<open>Properties\<close>

subsection \<open>Running the combinators\<close>

named_theorems run "how a program runs from an environment and a world"

lemma return_run [run]: "return x e w = (Inr x, w)"
  by (simp add: return_def)

lemma throw_run [run]: "throw err e w = (Inl err, w)"
  by (simp add: throw_def)

lemma bind_run [run]:
  "bind m f e w = (case fst (m e w) of
      Inl err \<Rightarrow> (Inl err, snd (m e w))
    | Inr x \<Rightarrow> f x e (snd (m e w)))"
  by (simp add: bind_def split: prod.splits sum.splits)

lemma seq_run [run]:
  "seq m k e w = (case fst (m e w) of
      Inl err \<Rightarrow> (Inl err, snd (m e w))
    | Inr x \<Rightarrow> k e (snd (m e w)))"
  by (simp add: seq_def bind_run)

lemma try_catch_run [run]:
  "try_catch m h e w = (case fst (m e w) of
      Inl err \<Rightarrow> h err e (snd (m e w))
    | Inr x \<Rightarrow> (Inr x, snd (m e w)))"
  by (simp add: try_catch_def split: prod.splits sum.splits)

lemma try_finally_run [run]:
  "try_finally m fin e w = (case fst (fin e (snd (m e w))) of
      Inl err \<Rightarrow> (Inl err, snd (fin e (snd (m e w))))
    | Inr u \<Rightarrow> (fst (m e w), snd (fin e (snd (m e w)))))"
  by (simp add: try_finally_def split: prod.splits sum.splits)

lemma swallow_run [run]: "swallow m e w = (Inr (), snd (m e w))"
  by (simp add: swallow_def try_catch_run return_run split: sum.splits)

lemma or_false_run [run]:
  "or_false m e w =
     (case fst (m e w) of Inl err \<Rightarrow> Inr False | Inr b \<Rightarrow> Inr b, snd (m e w))"
  by (simp add: or_false_def try_catch_run return_run split: sum.splits)

lemma emit_run [run]: "emit ev e w = (Inr (), w\<lparr>trace := ev # trace w\<rparr>)"
  by (simp add: emit_def)

lemma modify_run [run]: "modify f e w = (Inr (), f w)"
  by (simp add: modify_def)

lemma inspect_run [run]: "inspect f e w = (Inr (f w), w)"
  by (simp add: inspect_def)

lemma reader_run [run]: "reader f e w = (Inr (f e), w)"
  by (simp add: reader_def)

lemma await_run [run]:
  "await c deliver e w =
     (case rejection e (clock w) of
        Some msg \<Rightarrow> Inl (Error msg)
      | None \<Rightarrow> Inr (deliver e (clock w)),
      w\<lparr>clock := Suc (clock w), trace := Call c # trace w\<rparr>)"
  by (simp add: await_def Let_def split: option.splits)

lemma perform_run [run]:
  "perform c e w =
     (case rejection e (clock w) of Some msg \<Rightarrow> Inl (Error msg) | None \<Rightarrow> Inr (),
      w\<lparr>clock := Suc (clock w), trace := Call c # trace w\<rparr>)"
  by (simp add: perform_def await_run)

lemma query_run [run]:
  "query c deliver e w =
     (Inr (deliver e (clock w)), w\<lparr>clock := Suc (clock w), trace := Call c # trace w\<rparr>)"
  by (simp add: query_def)

text \<open>Unfolding the combinators, for runs from a concrete world.\<close>

lemmas combinators =
  return_def throw_def bind_def seq_def try_catch_def try_finally_def swallow_def or_false_def
  emit_def modify_def inspect_def await_def perform_def query_def reader_def Let_def

lemmas bootstrap_defs =
  bootstrapStorageState_def newContext_def openedContext_def closeContext_def assign_def
  deref_def useApiBootstrap_def isCI_def skipApiBootstrap_def flag_def block.simps

lemmas ui_defs =
  createAuthenticatedSession_def traced_def loginAndSnapshot_def isLoggedIn_def probeMarkers_def
  storageStateTo_def newPage_def openedPage_def closePage_def getErrorMessage_def
  LoginPage_login_def
  requireText_def assertFormInputReady_def assertFormFieldValue_def assertButtonReady_def
  assertPageNavigation_def assertErrorMessage_def whileDisabled.simps blank_def whiteSpace_def
  CONDUIT_BASE_URL_def user_12_def

lemmas api_defs =
  createAuthenticatedSessionViaAPI_def traced_def injectAndSnapshot_def ApiHelper_login_def
  loginRetry.simps loginAttempt_def responseJson_def responseText_def property_def
  optional_def
  maxRetries_def throwLast_def storageStateTo_def newPage_def openedPage_def closePage_def
  CONDUIT_BASE_URL_def user_12_def

lemmas inputs = signed_in_env_def quiet_env_def one_context_def fresh_world_def

subsection \<open>Frames\<close>

lemma frame_refl: "frame P W f w w"
  by (simp add: frame_def)

lemma frame_trans:
  assumes "frame P W f a b" and "frame P W f b c"
  shows "frame P W f a c"
proof -
  from assms(1) obtain t1 where t1: "trace b = t1 @ trace a" "list_all P t1"
      "list_all (\<lambda>ev. \<not> W ev) t1 \<longrightarrow> f b = f a"
    unfolding frame_def by blast
  from assms(2) obtain t2 where t2: "trace c = t2 @ trace b" "list_all P t2"
      "list_all (\<lambda>ev. \<not> W ev) t2 \<longrightarrow> f c = f b"
    unfolding frame_def by blast
  have "trace c = (t2 @ t1) @ trace a" using t1(1) t2(1) by simp
  moreover have "list_all P (t2 @ t1)" using t1(2) t2(2) by simp
  moreover have "list_all (\<lambda>ev. \<not> W ev) (t2 @ t1) \<longrightarrow> f c = f a" using t1(3) t2(3) by simp
  ultimately show ?thesis unfolding frame_def by blast
qed

lemma stable_trace: "stable f \<Longrightarrow> f (w\<lparr>trace := tr\<rparr>) = f w"
proof -
  assume "stable f"
  then have "f (w\<lparr>clock := clock w, trace := tr\<rparr>) = f w" unfolding stable_def by blast
  then show ?thesis by simp
qed

lemma frame_event: "stable f \<Longrightarrow> P ev \<Longrightarrow> frame P W f w (w\<lparr>trace := ev # trace w\<rparr>)"
  unfolding frame_def by (rule exI [of _ "[ev]"]) (simp add: stable_trace)

lemma frame_tick:
  "stable f \<Longrightarrow> P ev \<Longrightarrow> frame P W f w (w\<lparr>clock := c, trace := ev # trace w\<rparr>)"
  unfolding frame_def by (rule exI [of _ "[ev]"]) (simp add: stable_def)

lemma frame_change:
  "P ev \<Longrightarrow> W ev \<or> f w' = f w \<Longrightarrow> trace w' = ev # trace w \<Longrightarrow> frame P W f w w'"
  unfolding frame_def by (rule exI [of _ "[ev]"]) auto

text \<open>The frame of a program follows its structure.\<close>

named_theorems only_intros "frames of the combinators and of the procedures"

lemma only_return [only_intros]: "only P W f (return x)"
  by (simp add: only_def run frame_refl)

lemma only_throw [only_intros]: "only P W f (throw err)"
  by (simp add: only_def run frame_refl)

lemma only_inspect [only_intros]: "only P W f (inspect g)"
  by (simp add: only_def run frame_refl)

lemma only_reader [only_intros]: "only P W f (reader g)"
  by (simp add: only_def run frame_refl)

lemma only_bind [only_intros]:
  "only P W f m \<Longrightarrow> (\<And>x. only P W f (g x)) \<Longrightarrow> only P W f (bind m g)"
  unfolding only_def
  by (auto simp: run split: sum.splits) (blast intro: frame_trans)+

lemma only_seq [only_intros]: "only P W f m \<Longrightarrow> only P W f k \<Longrightarrow> only P W f (seq m k)"
  by (simp add: seq_def only_bind)

lemma only_block_Nil [only_intros]: "only P W f (block [])"
  by (simp add: only_return)

lemma only_block_Cons [only_intros]:
  "only P W f m \<Longrightarrow> only P W f (block ms) \<Longrightarrow> only P W f (block (m # ms))"
  by (simp add: only_seq)

lemma only_try_catch [only_intros]:
  "only P W f m \<Longrightarrow> (\<And>err. only P W f (h err)) \<Longrightarrow> only P W f (try_catch m h)"
  unfolding only_def
  by (auto simp: run split: sum.splits) (blast intro: frame_trans)+

lemma only_try_finally [only_intros]:
  "only P W f m \<Longrightarrow> only P W f fin \<Longrightarrow> only P W f (try_finally m fin)"
  unfolding only_def
  by (auto simp: run split: sum.splits) (blast intro: frame_trans)+

lemma only_swallow [only_intros]: "only P W f m \<Longrightarrow> only P W f (swallow m)"
  by (simp add: swallow_def only_try_catch only_return)

lemma only_or_false [only_intros]: "only P W f m \<Longrightarrow> only P W f (or_false m)"
  by (simp add: or_false_def only_try_catch only_return)

lemma only_if [only_intros]:
  "(c \<Longrightarrow> only P W f a) \<Longrightarrow> (\<not> c \<Longrightarrow> only P W f b) \<Longrightarrow> only P W f (if c then a else b)"
  by simp

lemma only_case_option [only_intros]:
  "only P W f a \<Longrightarrow> (\<And>x. only P W f (b x))
   \<Longrightarrow> only P W f (case v of None \<Rightarrow> a | Some x \<Rightarrow> b x)"
  by (cases v) simp_all

lemma only_emit [only_intros]: "stable f \<Longrightarrow> P ev \<Longrightarrow> only P W f (emit ev)"
  by (simp add: only_def run frame_event)

lemma only_await [only_intros]: "stable f \<Longrightarrow> P (Call c) \<Longrightarrow> only P W f (await c d)"
  by (simp add: only_def run frame_tick)

lemma only_perform [only_intros]: "stable f \<Longrightarrow> P (Call c) \<Longrightarrow> only P W f (perform c)"
  by (simp add: only_def run frame_tick)

lemma only_query [only_intros]: "stable f \<Longrightarrow> P (Call c) \<Longrightarrow> only P W f (query c d)"
  by (simp add: only_def run frame_tick)

lemma only_traced:
  assumes "stable f" and "P (Enter p)" and "P (Return p)" and "\<And>err. P (Thrown p err)"
    and "only P W f m"
  shows "only P W f (traced p m)"
  unfolding traced_def
  by (intro only_seq only_bind only_try_catch only_emit only_return only_throw assms)

lemma only_modify:
  "(\<And>w. f (g w) = f w) \<Longrightarrow> (\<And>w. trace (g w) = trace w) \<Longrightarrow> only P W f (modify g)"
  by (simp add: only_def run frame_def)

text \<open>A state change that is announced by an event.\<close>

lemma only_change:
  assumes "P ev" and "\<And>w. trace (g w) = trace w"
    and "W ev \<or> (\<forall>w t. f ((g w)\<lparr>trace := t\<rparr>) = f w)"
  shows "only P W f (seq (modify g) (emit ev))"
  unfolding only_def
proof (intro allI)
  fix e w
  have "snd (seq (modify g) (emit ev) e w) = (g w)\<lparr>trace := ev # trace w\<rparr>"
    by (simp add: run assms(2))
  moreover have "frame P W f w ((g w)\<lparr>trace := ev # trace w\<rparr>)"
    by (rule frame_change) (use assms in auto)
  ultimately show "frame P W f w (snd (seq (modify g) (emit ev) e w))" by simp
qed

lemma only_whileDisabled [only_intros]:
  "stable f \<Longrightarrow> (\<And>ev. chatter ev \<Longrightarrow> P ev) \<Longrightarrow> only P W f (whileDisabled b limit pause attempts)"
proof (induction b limit pause attempts rule: whileDisabled.induct)
  case (1 button limit pause attempts)
  show ?case
    by (subst whileDisabled.simps) (intro only_intros 1; simp add: 1)
qed

lemma only_assertFormInputReady [only_intros]:
  "stable f \<Longrightarrow> (\<And>ev. chatter ev \<Longrightarrow> P ev) \<Longrightarrow> only P W f (assertFormInputReady l)"
  unfolding assertFormInputReady_def by (intro only_intros; simp)

lemma only_assertButtonReady [only_intros]:
  "stable f \<Longrightarrow> (\<And>ev. chatter ev \<Longrightarrow> P ev) \<Longrightarrow> only P W f (assertButtonReady l)"
  unfolding assertButtonReady_def by (intro only_intros; simp)

lemma only_assertFormFieldValue [only_intros]:
  "stable f \<Longrightarrow> (\<And>ev. chatter ev \<Longrightarrow> P ev) \<Longrightarrow> only P W f (assertFormFieldValue l v)"
  unfolding assertFormFieldValue_def by (intro only_intros; simp)

lemma only_assertPageNavigation [only_intros]:
  "stable f \<Longrightarrow> (\<And>ev. chatter ev \<Longrightarrow> P ev) \<Longrightarrow> only P W f (assertPageNavigation c)"
  unfolding assertPageNavigation_def by (intro only_intros; simp)

lemma only_assertErrorMessage [only_intros]:
  "stable f \<Longrightarrow> (\<And>ev. chatter ev \<Longrightarrow> P ev) \<Longrightarrow> only P W f (assertErrorMessage l)"
  unfolding assertErrorMessage_def by (intro only_intros; simp)

lemma only_getErrorMessage [only_intros]:
  "stable f \<Longrightarrow> (\<And>ev. chatter ev \<Longrightarrow> P ev) \<Longrightarrow> only P W f getErrorMessage"
  unfolding getErrorMessage_def by (intro only_intros; simp)

lemma only_requireText [only_intros]: "only P W f (requireText v msg)"
  unfolding requireText_def by (cases v) (simp_all add: only_intros)

lemma only_LoginPage_login [only_intros]:
  "stable f \<Longrightarrow> (\<And>ev. chatter ev \<Longrightarrow> P ev) \<Longrightarrow> only P W f (LoginPage_login page em pw)"
  unfolding LoginPage_login_def by (intro only_intros; simp)

lemma only_signUp [only_intros]:
  "stable f \<Longrightarrow> (\<And>ev. chatter ev \<Longrightarrow> P ev) \<Longrightarrow> only P W f (signUp page u m p)"
  unfolding signUp_def by (intro only_intros; simp)

lemma only_probeMarkers [only_intros]:
  "stable f \<Longrightarrow> (\<And>ev. chatter ev \<Longrightarrow> P ev) \<Longrightarrow> only P W f probeMarkers"
  unfolding probeMarkers_def by (intro only_intros; simp)

lemma only_isLoggedIn [only_intros]:
  "stable f \<Longrightarrow> (\<And>ev. chatter ev \<Longrightarrow> P ev) \<Longrightarrow> (\<And>b. P (Verdict page b))
   \<Longrightarrow> only P W f (isLoggedIn page)"
  unfolding isLoggedIn_def by (intro only_intros; simp)

lemma only_openedPage:
  assumes "stable f" and "\<And>p. P (PageOpened p ctx)"
    and "(\<forall>p. W (PageOpened p ctx)) \<or> (\<forall>w ps. f (w\<lparr>pages := ps\<rparr>) = f w)"
  shows "only P W f (openedPage ctx)"
  unfolding only_def openedPage_def
proof (intro allI)
  fix e :: env and w :: world
  let ?w' = "w\<lparr>pages := pages w @ [(ctx, True)], trace := PageOpened (length (pages w)) ctx # trace w\<rparr>"
  have "f ?w' = f (w\<lparr>pages := pages w @ [(ctx, True)]\<rparr>)"
    using assms(1) by (simp add: stable_trace)
  then have d: "W (PageOpened (length (pages w)) ctx) \<or> f ?w' = f w"
    using assms(3) by auto
  have "frame P W f w ?w'"
    by (rule frame_change) (use d in \<open>simp_all add: assms(2)\<close>)
  then show "frame P W f w (snd (Inr (length (pages w)), ?w'))" by simp
qed

lemma only_newPage:
  assumes "stable f" and "\<And>p. P (PageOpened p ctx)" and "P (Call (NewPage ctx))"
    and "(\<forall>p. W (PageOpened p ctx)) \<or> (\<forall>w ps. f (w\<lparr>pages := ps\<rparr>) = f w)"
  shows "only P W f (newPage ctx)"
  unfolding newPage_def
  by (intro only_seq only_perform only_openedPage assms)

lemma only_closePage:
  assumes "stable f" and "P (Call (ClosePage p))"
    and "W (Call (ClosePage p)) \<or> (\<forall>w ps. f (w\<lparr>pages := ps\<rparr>) = f w)"
  shows "only P W f (closePage p)"
  unfolding only_def
proof (intro allI)
  fix e :: env and w :: world
  let ?ps = "(pages w)[p := (fst (pages w ! p), False)]"
  let ?w' = "w\<lparr>pages := ?ps, clock := Suc (clock w), trace := Call (ClosePage p) # trace w\<rparr>"
  have s: "snd (closePage p e w) = ?w'"
    by (simp add: closePage_def run)
  have "f ?w' = f (w\<lparr>pages := ?ps\<rparr>)"
    using assms(1) unfolding stable_def by blast
  then have d: "W (Call (ClosePage p)) \<or> f ?w' = f w"
    using assms(3) by auto
  have "frame P W f w ?w'"
    by (rule frame_change) (use d in \<open>simp_all add: assms(2)\<close>)
  with s show "frame P W f w (snd (closePage p e w))" by simp
qed

lemma only_openedContext:
  assumes "stable f" and "\<And>c. P (ContextOpened c st)"
    and "(\<forall>c. W (ContextOpened c st)) \<or> (\<forall>w cs. f (w\<lparr>contexts := cs\<rparr>) = f w)"
  shows "only P W f (openedContext st)"
  unfolding only_def openedContext_def
proof (intro allI)
  fix e :: env and w :: world
  let ?w' = "w\<lparr>contexts := contexts w @ [True],
               trace := ContextOpened (length (contexts w)) st # trace w\<rparr>"
  have "f ?w' = f (w\<lparr>contexts := contexts w @ [True]\<rparr>)"
    using assms(1) by (simp add: stable_trace)
  then have d: "W (ContextOpened (length (contexts w)) st) \<or> f ?w' = f w"
    using assms(3) by auto
  have "frame P W f w ?w'"
    by (rule frame_change) (use d in \<open>simp_all add: assms(2)\<close>)
  then show "frame P W f w (snd (Inr (length (contexts w)), ?w'))" by simp
qed

lemma only_newContext:
  assumes "stable f" and "\<And>c. P (ContextOpened c st)" and "P (Call (NewContext st))"
    and "(\<forall>c. W (ContextOpened c st)) \<or> (\<forall>w cs. f (w\<lparr>contexts := cs\<rparr>) = f w)"
  shows "only P W f (newContext st)"
  unfolding newContext_def
  by (intro only_seq only_perform only_openedContext assms)

lemma only_closeContext:
  assumes "stable f" and "P (Call (CloseContext c))"
    and "W (Call (CloseContext c)) \<or> (\<forall>w cs ps. f (w\<lparr>contexts := cs, pages := ps\<rparr>) = f w)"
  shows "only P W f (closeContext c)"
  unfolding only_def
proof (intro allI)
  fix e :: env and w :: world
  let ?cs = "(contexts w)[c := False]"
  let ?ps = "map (\<lambda>(owner, opn). (owner, opn \<and> owner \<noteq> c)) (pages w)"
  let ?w' = "w\<lparr>contexts := ?cs, pages := ?ps, clock := Suc (clock w),
               trace := Call (CloseContext c) # trace w\<rparr>"
  have s: "snd (closeContext c e w) = ?w'"
    by (simp add: closeContext_def run)
  have "f ?w' = f (w\<lparr>contexts := ?cs, pages := ?ps\<rparr>)"
    using assms(1) unfolding stable_def by blast
  then have d: "W (Call (CloseContext c)) \<or> f ?w' = f w"
    using assms(3) by auto
  have "frame P W f w ?w'"
    by (rule frame_change) (use d in \<open>simp_all add: assms(2)\<close>)
  with s show "frame P W f w (snd (closeContext c e w))" by simp
qed

lemma only_assign:
  "(\<And>w l. f (w\<lparr>locals := l\<rparr>) = f w) \<Longrightarrow> only P W f (assign name v)"
  unfolding assign_def by (rule only_modify) simp_all

lemma only_deref [only_intros]: "only P W f (deref name)"
  unfolding deref_def by (rule only_inspect)

lemma only_storageStateTo:
  assumes "stable f" and "P (Call StorageState)" and "P (SnapshotWritten c)"
    and "W (SnapshotWritten c) \<or> (\<forall>w s. f (w\<lparr>storageState := s\<rparr>) = f w)"
  shows "only P W f (storageStateTo c)"
  unfolding storageStateTo_def
proof (intro only_bind only_await assms(1,2) only_change assms(3))
  fix snap
  show "\<And>w. trace (w\<lparr>storageState := Some snap\<rparr>) = trace w" by simp
  show "W (SnapshotWritten c) \<or> (\<forall>w t. f (w\<lparr>storageState := Some snap, trace := t\<rparr>) = f w)"
    using assms(4) stable_trace [OF assms(1)] by auto
qed

lemma uiEvent_chatter: "chatter ev \<Longrightarrow> uiEvent ctx ev"
  by (cases ev) simp_all

lemma only_loginAndSnapshot:
  assumes "stable f" and "\<And>ev. uiEvent ctx ev \<Longrightarrow> P ev"
    and "W (SnapshotWritten ctx) \<or> (\<forall>w s. f (w\<lparr>storageState := s\<rparr>) = f w)"
  shows "only P W f (loginAndSnapshot ctx cr page)"
proof -
  have ch: "\<And>ev. chatter ev \<Longrightarrow> P ev" by (simp add: assms(2) uiEvent_chatter)
  have st: "only P W f (storageStateTo ctx)"
    by (rule only_storageStateTo) (simp_all add: assms)
  have chk: "only P W f (isLoggedIn page)"
    by (rule only_isLoggedIn) (simp_all add: assms ch)
  show ?thesis
    unfolding loginAndSnapshot_def
    by (intro only_intros st chk; simp add: assms ch)
qed

lemma only_uiBody:
  assumes "stable f" and "\<And>ev. uiEvent ctx ev \<Longrightarrow> P ev"
    and "W (SnapshotWritten ctx) \<or> (\<forall>w s. f (w\<lparr>storageState := s\<rparr>) = f w)"
    and "(\<forall>p. W (PageOpened p ctx) \<and> W (Call (ClosePage p))) \<or> (\<forall>w ps. f (w\<lparr>pages := ps\<rparr>) = f w)"
  shows "only P W f (bind (newPage ctx) (\<lambda>page.
           try_finally (loginAndSnapshot ctx cr page) (closePage page)))"
proof (intro only_bind only_try_finally)
  show "only P W f (newPage ctx)"
    by (rule only_newPage) (use assms in auto)
  fix page
  show "only P W f (loginAndSnapshot ctx cr page)"
    by (rule only_loginAndSnapshot) (use assms in auto)
  show "only P W f (closePage page)"
    by (rule only_closePage) (use assms in auto)
qed

lemma only_createAuthenticatedSession:
  assumes "stable f" and "\<And>ev. uiEvent ctx ev \<Longrightarrow> P ev"
    and "P (Enter UiStrategy)" and "P (Return UiStrategy)" and "\<And>err. P (Thrown UiStrategy err)"
    and "W (SnapshotWritten ctx) \<or> (\<forall>w s. f (w\<lparr>storageState := s\<rparr>) = f w)"
    and "(\<forall>p. W (PageOpened p ctx) \<and> W (Call (ClosePage p))) \<or> (\<forall>w ps. f (w\<lparr>pages := ps\<rparr>) = f w)"
  shows "only P W f (createAuthenticatedSession ctx cr)"
  unfolding createAuthenticatedSession_def
  by (intro only_traced only_uiBody assms)

lemma only_keeps:
  "only P (\<lambda>ev. False) f m \<Longrightarrow> f (snd (m e w)) = f w"
  unfolding only_def frame_def by (auto simp: list_all_iff)

lemma only_log:
  assumes "only P W f m" and "\<And>ev. P ev \<Longrightarrow> \<not> Q ev"
  shows "filter Q (trace (snd (m e w))) = filter Q (trace w)"
proof -
  from assms(1) obtain tr where tr: "trace (snd (m e w)) = tr @ trace w" "list_all P tr"
    unfolding only_def frame_def by blast
  from tr(2) assms(2) have "filter Q tr = []"
    by (induction tr) auto
  with tr(1) show ?thesis by simp
qed

text \<open>The frame of \<^verbatim>\<open>ApiHelper.login\<close>: calls, console output and the token.\<close>

lemma seq_assoc: "seq (seq m k) r = seq m (seq k r)"
  by (rule ext, rule ext) (simp add: seq_run split: sum.splits)

lemma only_announced:
  assumes "P ev" and "\<And>w. trace (g w) = trace w"
    and "W ev \<or> (\<forall>w t. f ((g w)\<lparr>trace := t\<rparr>) = f w)"
    and "only P W f k"
  shows "only P W f (seq (modify g) (seq (emit ev) k))"
proof -
  have "only P W f (seq (seq (modify g) (emit ev)) k)"
    by (intro only_seq only_change assms)
  then show ?thesis by (simp add: seq_assoc)
qed

lemma only_responseText [only_intros]: "only P W f (responseText r)"
  by (cases "rawText r") (simp_all add: responseText_def only_throw only_return)

lemma only_responseJson [only_intros]: "only P W f (responseJson r)"
  by (cases "payload r") (simp_all add: responseJson_def only_throw only_return)

lemma only_property [only_intros]: "only P W f (property v k)"
  by (cases "field v k") (simp_all add: property_def only_throw only_return)

lemma only_optional [only_intros]: "only P W f (optional v k)"
  by (cases v) (simp_all add: optional_def only_return only_property)

lemma only_throwLast [only_intros]: "only P W f (throwLast err)"
  by (simp add: throwLast_def only_throw)

lemma only_loginAttempt:
  assumes "stable f" and "\<And>ev. chatter ev \<Longrightarrow> P ev" and "P TokenSet"
    and "W TokenSet \<or> (\<forall>w t. f (w\<lparr>authToken := t\<rparr>) = f w)"
  shows "only P W f (loginAttempt cr k)"
proof -
  have "only P W f (seq (modify (\<lambda>w. w\<lparr>authToken := token\<rparr>))
                     (seq (emit TokenSet) (block [emit (Console ''Login successful'')])))"
    for token
  proof (rule only_announced)
    show "P TokenSet" by fact
    show "W TokenSet \<or> (\<forall>w t. f (w\<lparr>authToken := token, trace := t\<rparr>) = f w)"
      using assms(4) stable_trace [OF assms(1)] by auto
    show "only P W f (block [emit (Console ''Login successful'')])"
      by (intro only_intros) (simp_all add: assms)
  qed simp
  then have t: "only P W f (block [modify (\<lambda>w. w\<lparr>authToken := token\<rparr>), emit TokenSet,
                                   emit (Console ''Login successful'')])" for token
    by simp
  show ?thesis
    unfolding loginAttempt_def Let_def
    by (intro t only_bind only_try_catch only_if only_seq only_await only_return only_throw
              only_responseText only_responseJson only_property; simp add: assms)
qed

lemma only_loginRetry:
  assumes "stable f" and "\<And>ev. chatter ev \<Longrightarrow> P ev" and "P TokenSet"
    and "W TokenSet \<or> (\<forall>w t. f (w\<lparr>authToken := t\<rparr>) = f w)"
  shows "only P W f (loginRetry cr k lastError)"
proof (induction cr k lastError rule: loginRetry.induct)
  case (1 credentials attempt lastError)
  show ?case
    by (subst loginRetry.simps)
       (intro only_intros only_loginAttempt assms 1; simp add: assms)
qed

lemma only_ApiHelper_login:
  assumes "stable f" and "\<And>ev. chatter ev \<Longrightarrow> P ev" and "P TokenSet"
    and "W TokenSet \<or> (\<forall>w t. f (w\<lparr>authToken := t\<rparr>) = f w)"
  shows "only P W f (ApiHelper_login cr)"
  unfolding ApiHelper_login_def
  by (intro only_intros only_loginRetry assms)

text \<open>The frame of the API-driven establisher.\<close>

lemma apiEvent_chatter: "chatter ev \<Longrightarrow> apiEvent ctx ev"
  by (cases ev) simp_all

lemma only_injectAndSnapshot:
  assumes "stable f" and "\<And>ev. apiEvent ctx ev \<Longrightarrow> P ev"
    and "W (SnapshotWritten ctx) \<or> (\<forall>w s. f (w\<lparr>storageState := s\<rparr>) = f w)"
  shows "only P W f (injectAndSnapshot ctx)"
proof -
  have st: "only P W f (storageStateTo ctx)"
    by (rule only_storageStateTo) (simp_all add: assms)
  show ?thesis
    unfolding injectAndSnapshot_def
    by (intro only_intros st; simp add: assms)
qed

lemma only_apiBody:
  assumes "stable f" and "\<And>ev. apiEvent ctx ev \<Longrightarrow> P ev"
    and "W TokenSet \<or> (\<forall>w t. f (w\<lparr>authToken := t\<rparr>) = f w)"
    and "W (SnapshotWritten ctx) \<or> (\<forall>w s. f (w\<lparr>storageState := s\<rparr>) = f w)"
    and "(\<forall>p. W (PageOpened p ctx) \<and> W (Call (ClosePage p))) \<or> (\<forall>w ps. f (w\<lparr>pages := ps\<rparr>) = f w)"
  shows "only P W f
           (bind (ApiHelper_login cr) (\<lambda>loginResponse.
            bind (inspect authToken) (\<lambda>token.
            bind (optional loginResponse ''user'') (\<lambda>userData.
              if \<not> truthy token then throw (Error ''Failed to obtain authentication token'')
              else bind (newPage ctx) (\<lambda>page.
                try_finally (injectAndSnapshot ctx) (closePage page))))))"
proof (intro only_bind only_if only_try_finally only_inspect only_optional only_throw)
  show "only P W f (ApiHelper_login cr)"
    by (rule only_ApiHelper_login) (use assms in \<open>auto simp: apiEvent_chatter\<close>)
  show "only P W f (newPage ctx)"
    by (rule only_newPage) (use assms in auto)
  show "only P W f (injectAndSnapshot ctx)"
    by (rule only_injectAndSnapshot) (use assms in auto)
  fix page
  show "only P W f (closePage page)"
    by (rule only_closePage) (use assms in auto)
qed

lemma only_createAuthenticatedSessionViaAPI:
  assumes "stable f" and "\<And>ev. apiEvent ctx ev \<Longrightarrow> P ev"
    and "P (Enter ApiStrategy)" and "P (Return ApiStrategy)" and "\<And>err. P (Thrown ApiStrategy err)"
    and "W TokenSet \<or> (\<forall>w t. f (w\<lparr>authToken := t\<rparr>) = f w)"
    and "W (SnapshotWritten ctx) \<or> (\<forall>w s. f (w\<lparr>storageState := s\<rparr>) = f w)"
    and "(\<forall>p. W (PageOpened p ctx) \<and> W (Call (ClosePage p))) \<or> (\<forall>w ps. f (w\<lparr>pages := ps\<rparr>) = f w)"
  shows "only P W f (createAuthenticatedSessionViaAPI ctx cr)"
  unfolding createAuthenticatedSessionViaAPI_def
  by (intro only_traced only_apiBody assms)

subsection \<open>Logs\<close>


lemma wpI:
  "filter Q (trace (snd (m e w))) = rev new @ filter Q (trace w) \<Longrightarrow>
   (case fst (m e w) of Inr x \<Rightarrow> N x new (snd (m e w)) | Inl err \<Rightarrow> X err new (snd (m e w)))
   \<Longrightarrow> wp Q e m N X w"
  unfolding wp_def by blast

lemma wp_emitted:
  assumes "wp Q e m N X w"
  shows "case fst (m e w) of
           Inr x \<Rightarrow> N x (emitted Q w (snd (m e w))) (snd (m e w))
         | Inl err \<Rightarrow> X err (emitted Q w (snd (m e w))) (snd (m e w))"
proof -
  from assms obtain new where
    n: "filter Q (trace (snd (m e w))) = rev new @ filter Q (trace w)"
    and c: "case fst (m e w) of Inr x \<Rightarrow> N x new (snd (m e w)) | Inl err \<Rightarrow> X err new (snd (m e w))"
    unfolding wp_def by blast
  from n have "emitted Q w (snd (m e w)) = new" by (simp add: emitted_def)
  with c show ?thesis by (auto split: sum.splits)
qed

lemma wp_weaken:
  assumes "wp Q e m N' X' w"
    and "\<And>x n w'. N' x n w' \<Longrightarrow> N x n w'" and "\<And>err n w'. X' err n w' \<Longrightarrow> X err n w'"
  shows "wp Q e m N X w"
proof -
  from assms(1) obtain new where
    n: "filter Q (trace (snd (m e w))) = rev new @ filter Q (trace w)"
    and c: "case fst (m e w) of Inr x \<Rightarrow> N' x new (snd (m e w)) | Inl err \<Rightarrow> X' err new (snd (m e w))"
    unfolding wp_def by blast
  from c assms(2,3) have
    "case fst (m e w) of Inr x \<Rightarrow> N x new (snd (m e w)) | Inl err \<Rightarrow> X err new (snd (m e w))"
    by (auto split: sum.splits)
  with n show ?thesis by (rule wpI)
qed

text \<open>
  The log of a program follows its structure. After a call on the environment the clock
  and the trace are left open: what follows is shown for every value of them.
\<close>

named_theorems wp_intros "logs of the combinators and of the procedures"

lemma wp_return [wp_intros]: "N x [] w \<Longrightarrow> wp Q e (return x) N X w"
  by (rule wpI [of _ _ _ _ "[]"]) (simp_all add: run)

lemma wp_throw [wp_intros]: "X err [] w \<Longrightarrow> wp Q e (throw err) N X w"
  by (rule wpI [of _ _ _ _ "[]"]) (simp_all add: run)

lemma wp_inspect [wp_intros]: "N (g w) [] w \<Longrightarrow> wp Q e (inspect g) N X w"
  by (rule wpI [of _ _ _ _ "[]"]) (simp_all add: run)

lemma wp_reader [wp_intros]: "N (g e) [] w \<Longrightarrow> wp Q e (reader g) N X w"
  by (rule wpI [of _ _ _ _ "[]"]) (simp_all add: run)

lemma wp_modify [wp_intros]:
  "trace (g w) = trace w \<Longrightarrow> N () [] (g w) \<Longrightarrow> wp Q e (modify g) N X w"
  by (rule wpI [of _ _ _ _ "[]"]) (simp_all add: run)

lemma wp_emit [wp_intros]:
  assumes "\<And>tr. N () (filter Q [ev]) (w\<lparr>trace := tr\<rparr>)"
  shows "wp Q e (emit ev) N X w"
proof -
  have "N () (filter Q [ev]) (w\<lparr>trace := ev # trace w\<rparr>)" by (rule assms)
  then show ?thesis
    by (intro wpI [of _ _ _ _ "filter Q [ev]"]) (simp_all add: run)
qed

lemma wp_bind [wp_intros]:
  assumes "wp Q e m (\<lambda>x n1. wp Q e (f x) (\<lambda>y n2. N y (n1 @ n2)) (\<lambda>err n2. X err (n1 @ n2))) X w"
  shows "wp Q e (bind m f) N X w"
proof -
  let ?w1 = "snd (m e w)"
  from assms obtain n1 where
    n1: "filter Q (trace ?w1) = rev n1 @ filter Q (trace w)"
    and c1: "case fst (m e w) of
               Inr x \<Rightarrow> wp Q e (f x) (\<lambda>y n2. N y (n1 @ n2)) (\<lambda>err n2. X err (n1 @ n2)) ?w1
             | Inl err \<Rightarrow> X err n1 ?w1"
    unfolding wp_def [of Q e m] by blast
  show ?thesis
  proof (cases "fst (m e w)")
    case (Inl err)
    with n1 c1 show ?thesis by (intro wpI [of _ _ _ _ n1]) (auto simp: run split: sum.splits)
  next
    case (Inr x)
    with c1 have "wp Q e (f x) (\<lambda>y n2. N y (n1 @ n2)) (\<lambda>err n2. X err (n1 @ n2)) ?w1" by simp
    then obtain n2 where
      n2: "filter Q (trace (snd (f x e ?w1))) = rev n2 @ filter Q (trace ?w1)"
      and c2: "case fst (f x e ?w1) of
                 Inr y \<Rightarrow> N y (n1 @ n2) (snd (f x e ?w1))
               | Inl err \<Rightarrow> X err (n1 @ n2) (snd (f x e ?w1))"
      unfolding wp_def by blast
    from Inr n1 n2 c2 show ?thesis by (intro wpI [of _ _ _ _ "n1 @ n2"]) (auto simp: run split: sum.splits)
  qed
qed

lemma wp_seq [wp_intros]:
  "wp Q e m (\<lambda>x n1. wp Q e k (\<lambda>y n2. N y (n1 @ n2)) (\<lambda>err n2. X err (n1 @ n2))) X w
   \<Longrightarrow> wp Q e (seq m k) N X w"
  unfolding seq_def by (rule wp_bind)

lemma wp_block_Nil [wp_intros]: "N () [] w \<Longrightarrow> wp Q e (block []) N X w"
  by (simp add: wp_return)

lemma wp_block_Cons [wp_intros]:
  "wp Q e m (\<lambda>x n1. wp Q e (block ms) (\<lambda>y n2. N y (n1 @ n2)) (\<lambda>err n2. X err (n1 @ n2))) X w
   \<Longrightarrow> wp Q e (block (m # ms)) N X w"
  by (simp add: wp_seq)

lemma wp_try_catch [wp_intros]:
  assumes "wp Q e m N
             (\<lambda>err n1. wp Q e (h err) (\<lambda>y n2. N y (n1 @ n2)) (\<lambda>err' n2. X err' (n1 @ n2))) w"
  shows "wp Q e (try_catch m h) N X w"
proof -
  let ?w1 = "snd (m e w)"
  from assms obtain n1 where
    n1: "filter Q (trace ?w1) = rev n1 @ filter Q (trace w)"
    and c1: "case fst (m e w) of
               Inr x \<Rightarrow> N x n1 ?w1
             | Inl err \<Rightarrow> wp Q e (h err) (\<lambda>y n2. N y (n1 @ n2)) (\<lambda>err' n2. X err' (n1 @ n2)) ?w1"
    unfolding wp_def [of Q e m] by blast
  show ?thesis
  proof (cases "fst (m e w)")
    case (Inr x)
    with n1 c1 show ?thesis by (intro wpI [of _ _ _ _ n1]) (auto simp: run split: sum.splits)
  next
    case (Inl err)
    with c1 have "wp Q e (h err) (\<lambda>y n2. N y (n1 @ n2)) (\<lambda>err' n2. X err' (n1 @ n2)) ?w1"
      by simp
    then obtain n2 where
      n2: "filter Q (trace (snd (h err e ?w1))) = rev n2 @ filter Q (trace ?w1)"
      and c2: "case fst (h err e ?w1) of
                 Inr y \<Rightarrow> N y (n1 @ n2) (snd (h err e ?w1))
               | Inl err' \<Rightarrow> X err' (n1 @ n2) (snd (h err e ?w1))"
      unfolding wp_def by blast
    from Inl n1 n2 c2 show ?thesis by (intro wpI [of _ _ _ _ "n1 @ n2"]) (auto simp: run split: sum.splits)
  qed
qed

lemma wp_try_finally [wp_intros]:
  assumes "wp Q e m
             (\<lambda>x n1. wp Q e fin (\<lambda>u n2. N x (n1 @ n2)) (\<lambda>err n2. X err (n1 @ n2)))
             (\<lambda>err n1. wp Q e fin (\<lambda>u n2. X err (n1 @ n2)) (\<lambda>err' n2. X err' (n1 @ n2))) w"
  shows "wp Q e (try_finally m fin) N X w"
proof -
  let ?w1 = "snd (m e w)"
  let ?w2 = "snd (fin e ?w1)"
  from assms obtain n1 where
    n1: "filter Q (trace ?w1) = rev n1 @ filter Q (trace w)"
    and c1: "case fst (m e w) of
               Inr x \<Rightarrow> wp Q e fin (\<lambda>u n2. N x (n1 @ n2)) (\<lambda>err n2. X err (n1 @ n2)) ?w1
             | Inl err \<Rightarrow> wp Q e fin (\<lambda>u n2. X err (n1 @ n2)) (\<lambda>err' n2. X err' (n1 @ n2)) ?w1"
    unfolding wp_def [of Q e m] by blast
  show ?thesis
  proof (cases "fst (m e w)")
    case (Inr x)
    with c1 have "wp Q e fin (\<lambda>u n2. N x (n1 @ n2)) (\<lambda>err n2. X err (n1 @ n2)) ?w1" by simp
    then obtain n2 where
      n2: "filter Q (trace ?w2) = rev n2 @ filter Q (trace ?w1)"
      and c2: "case fst (fin e ?w1) of
                 Inr u \<Rightarrow> N x (n1 @ n2) ?w2 | Inl err \<Rightarrow> X err (n1 @ n2) ?w2"
      unfolding wp_def by blast
    from Inr n1 n2 c2 show ?thesis
      by (intro wpI [of _ _ _ _ "n1 @ n2"]) (auto simp: run split: sum.splits)
  next
    case (Inl err)
    with c1 have "wp Q e fin (\<lambda>u n2. X err (n1 @ n2)) (\<lambda>err' n2. X err' (n1 @ n2)) ?w1"
      by simp
    then obtain n2 where
      n2: "filter Q (trace ?w2) = rev n2 @ filter Q (trace ?w1)"
      and c2: "case fst (fin e ?w1) of
                 Inr u \<Rightarrow> X err (n1 @ n2) ?w2 | Inl err' \<Rightarrow> X err' (n1 @ n2) ?w2"
      unfolding wp_def by blast
    from Inl n1 n2 c2 show ?thesis
      by (intro wpI [of _ _ _ _ "n1 @ n2"]) (auto simp: run split: sum.splits)
  qed
qed

lemma wp_swallow [wp_intros]:
  "wp Q e m (\<lambda>u. N ()) (\<lambda>err. N ()) w \<Longrightarrow> wp Q e (swallow m) N X w"
  unfolding swallow_def
  by (rule wp_try_catch) (erule wp_weaken, simp_all add: wp_return)

lemma wp_or_false [wp_intros]:
  "wp Q e m N (\<lambda>err. N False) w \<Longrightarrow> wp Q e (or_false m) N X w"
  unfolding or_false_def
  by (rule wp_try_catch) (erule wp_weaken, simp_all add: wp_return)

lemma wp_if [wp_intros]:
  "(c \<Longrightarrow> wp Q e a N X w) \<Longrightarrow> (\<not> c \<Longrightarrow> wp Q e b N X w) \<Longrightarrow> wp Q e (if c then a else b) N X w"
  by simp

lemma quiet_Call: "quiet Q \<Longrightarrow> \<not> Q (Call c)"
  by (simp add: quiet_def)

lemma quiet_Console: "quiet Q \<Longrightarrow> \<not> Q (Console s)"
  by (simp add: quiet_def)

lemma wp_await [wp_intros]:
  assumes "quiet Q"
    and "\<And>c tr. N (d e (clock w)) [] (w\<lparr>clock := c, trace := tr\<rparr>)"
    and "\<And>err c tr. X err [] (w\<lparr>clock := c, trace := tr\<rparr>)"
  shows "wp Q e (await c d) N X w"
proof -
  let ?w' = "w\<lparr>clock := Suc (clock w), trace := Call c # trace w\<rparr>"
  have n: "N (d e (clock w)) [] ?w'" by (rule assms(2))
  have x: "X err [] ?w'" for err by (rule assms(3))
  show ?thesis
    by (rule wpI [of _ _ _ _ "[]"])
       (simp_all add: run quiet_Call [OF assms(1)] n x split: option.splits)
qed

lemma wp_perform [wp_intros]:
  assumes "quiet Q"
    and "\<And>c tr. N () [] (w\<lparr>clock := c, trace := tr\<rparr>)"
    and "\<And>err c tr. X err [] (w\<lparr>clock := c, trace := tr\<rparr>)"
  shows "wp Q e (perform c) N X w"
  unfolding perform_def by (rule wp_await) (simp_all add: assms)

lemma wp_query [wp_intros]:
  assumes "quiet Q"
    and "\<And>c tr. N (d e (clock w)) [] (w\<lparr>clock := c, trace := tr\<rparr>)"
  shows "wp Q e (query c d) N X w"
proof -
  have "N (d e (clock w)) [] (w\<lparr>clock := Suc (clock w), trace := Call c # trace w\<rparr>)"
    by (rule assms(2))
  then show ?thesis
    by (intro wpI [of _ _ _ _ "[]"]) (simp_all add: run quiet_Call [OF assms(1)])
qed

text \<open>
  A procedure that keeps \<open>f\<close> and emits events outside the class: whatever follows it starts
  from some world with the same \<open>f\<close> and the same log.
\<close>

lemma wp_only:
  assumes "only P (\<lambda>ev. False) f m" and "\<And>ev. P ev \<Longrightarrow> \<not> Q ev"
    and "\<And>x w'. f w' = f w \<Longrightarrow> N x [] w'" and "\<And>err w'. f w' = f w \<Longrightarrow> X err [] w'"
  shows "wp Q e m N X w"
proof (rule wpI [of _ _ _ _ "[]"])
  show "filter Q (trace (snd (m e w))) = rev [] @ filter Q (trace w)"
    using only_log [OF assms(1,2)] by simp
  have "f (snd (m e w)) = f w" by (rule only_keeps [OF assms(1)])
  then show "case fst (m e w) of Inr x \<Rightarrow> N x [] (snd (m e w)) | Inl err \<Rightarrow> X err [] (snd (m e w))"
    using assms(3,4) by (simp split: sum.splits)
qed

lemma stable_elsewhere: "stable elsewhere"
  by (simp add: stable_def elsewhere_def)

lemma elsewhere_eq:
  "elsewhere w' = elsewhere w \<Longrightarrow> w' = w\<lparr>clock := clock w', trace := trace w'\<rparr>"
proof -
  assume a: "elsewhere w' = elsewhere w"
  have "w' = (elsewhere w')\<lparr>clock := clock w', trace := trace w'\<rparr>"
    by (simp add: elsewhere_def)
  also have "\<dots> = (elsewhere w)\<lparr>clock := clock w', trace := trace w'\<rparr>" by (simp add: a)
  also have "\<dots> = w\<lparr>clock := clock w', trace := trace w'\<rparr>" by (simp add: elsewhere_def)
  finally show ?thesis .
qed

lemma wp_chatter:
  assumes "only chatter (\<lambda>ev. False) elsewhere m" and "quiet Q"
    and "\<And>x c tr. N x [] (w\<lparr>clock := c, trace := tr\<rparr>)"
    and "\<And>err c tr. X err [] (w\<lparr>clock := c, trace := tr\<rparr>)"
  shows "wp Q e m N X w"
proof (rule wp_only [OF assms(1)])
  show "\<And>ev. chatter ev \<Longrightarrow> \<not> Q ev" using assms(2) by (simp add: quiet_def)
  show "N x [] w'" if "elsewhere w' = elsewhere w" for x w'
  proof -
    have "N x [] (w\<lparr>clock := clock w', trace := trace w'\<rparr>)" by (rule assms(3))
    with elsewhere_eq [OF that] show ?thesis by simp
  qed
  show "X err [] w'" if "elsewhere w' = elsewhere w" for err w'
  proof -
    have "X err [] (w\<lparr>clock := clock w', trace := trace w'\<rparr>)" by (rule assms(4))
    with elsewhere_eq [OF that] show ?thesis by simp
  qed
qed

lemma wp_LoginPage_login [wp_intros]:
  "quiet Q \<Longrightarrow> (\<And>c tr. N () [] (w\<lparr>clock := c, trace := tr\<rparr>))
   \<Longrightarrow> (\<And>err c tr. X err [] (w\<lparr>clock := c, trace := tr\<rparr>))
   \<Longrightarrow> wp Q e (LoginPage_login p a b) N X w"
  by (rule wp_chatter) (simp_all add: only_LoginPage_login stable_elsewhere)

lemma wp_getErrorMessage [wp_intros]:
  "quiet Q \<Longrightarrow> (\<And>x c tr. N x [] (w\<lparr>clock := c, trace := tr\<rparr>))
   \<Longrightarrow> (\<And>err c tr. X err [] (w\<lparr>clock := c, trace := tr\<rparr>))
   \<Longrightarrow> wp Q e getErrorMessage N X w"
  by (rule wp_chatter) (simp_all add: only_getErrorMessage stable_elsewhere)

lemma wp_signUp [wp_intros]:
  "quiet Q \<Longrightarrow> (\<And>c tr. N () [] (w\<lparr>clock := c, trace := tr\<rparr>))
   \<Longrightarrow> (\<And>err c tr. X err [] (w\<lparr>clock := c, trace := tr\<rparr>))
   \<Longrightarrow> wp Q e (signUp p a b c') N X w"
  by (rule wp_chatter) (simp_all add: only_signUp stable_elsewhere)

lemma probeMarkers_fst:
  "fst (probeMarkers e w) =
     (case rejection e (clock w) of
        None \<Rightarrow> Inr ((seen e ProfileLink (clock w + 1) \<or> seen e SettingsLink (clock w + 2)
                      \<or> seen e NewArticleLink (clock w + 3)) \<and> \<not> seen e SignInLink (clock w + 4))
      | Some msg \<Rightarrow> Inl (Error msg))"
  by (auto simp: probeMarkers_def seen_def run eval_nat_numeral split: option.splits sum.splits)

lemma isLoggedIn_fst: "fst (isLoggedIn page e w) = Inr (loggedInAt e (clock w))"
  by (simp add: isLoggedIn_def run probeMarkers_fst loggedInAt_def split: option.splits)

lemma isLoggedIn_run:
  assumes "quiet Q"
  shows "\<exists>c tr. isLoggedIn p e w
                  = (Inr (loggedInAt e (clock w)),
                     w\<lparr>clock := c, trace := Verdict p (loggedInAt e (clock w)) # tr\<rparr>)
               \<and> filter Q tr = filter Q (trace w)"
proof -
  let ?v = "loggedInAt e (clock w)"
  let ?m = "try_catch probeMarkers (\<lambda>err. return False)"
  let ?w1 = "snd (?m e w)"
  have o: "only chatter (\<lambda>ev. False) elsewhere ?m"
    by (intro only_intros) (simp_all add: stable_elsewhere)
  have l: "filter Q (trace ?w1) = filter Q (trace w)"
    by (rule only_log [OF o]) (use assms(1) in \<open>simp add: quiet_def\<close>)
  have k: "?w1 = w\<lparr>clock := clock ?w1, trace := trace ?w1\<rparr>"
    by (rule elsewhere_eq) (rule only_keeps [OF o])
  have v: "fst (?m e w) = Inr ?v"
    using isLoggedIn_fst [of p e w] by (simp add: isLoggedIn_def run split: sum.splits)
  have "isLoggedIn p e w = (Inr ?v, ?w1\<lparr>trace := Verdict p ?v # trace ?w1\<rparr>)"
    using v by (simp add: isLoggedIn_def run)
  also have "?w1\<lparr>trace := Verdict p ?v # trace ?w1\<rparr>
             = w\<lparr>clock := clock ?w1, trace := Verdict p ?v # trace ?w1\<rparr>"
    by (subst k) simp
  finally show ?thesis using l by blast
qed

lemma wp_isLoggedIn [wp_intros]:
  assumes "quiet Q"
    and "\<And>c tr. N (loggedInAt e (clock w)) (filter Q [Verdict p (loggedInAt e (clock w))])
                    (w\<lparr>clock := c, trace := tr\<rparr>)"
  shows "wp Q e (isLoggedIn p) N X w"
proof -
  let ?v = "loggedInAt e (clock w)"
  from isLoggedIn_run [OF assms(1), of p e w] obtain c tr where
    r: "isLoggedIn p e w = (Inr ?v, w\<lparr>clock := c, trace := Verdict p ?v # tr\<rparr>)"
    and l: "filter Q tr = filter Q (trace w)" by blast
  show ?thesis
  proof (rule wpI [of _ _ _ _ "filter Q [Verdict p ?v]"])
    show "filter Q (trace (snd (isLoggedIn p e w)))
            = rev (filter Q [Verdict p ?v]) @ filter Q (trace w)"
      by (simp add: r l)
    show "case fst (isLoggedIn p e w) of
            Inr x \<Rightarrow> N x (filter Q [Verdict p ?v]) (snd (isLoggedIn p e w))
          | Inl err \<Rightarrow> X err (filter Q [Verdict p ?v]) (snd (isLoggedIn p e w))"
    proof -
      have "N ?v (filter Q [Verdict p ?v]) (w\<lparr>clock := c, trace := Verdict p ?v # tr\<rparr>)"
        by (rule assms(2))
      then show ?thesis by (simp add: r)
    qed
  qed
qed

lemma storageStateTo_run:
  "storageStateTo ctx e w =
     (case rejection e (clock w) of
        Some msg \<Rightarrow> (Inl (Error msg), w\<lparr>clock := Suc (clock w), trace := Call StorageState # trace w\<rparr>)
      | None \<Rightarrow> (Inr (), w\<lparr>clock := Suc (clock w), storageState := Some (snapshot e (clock w)),
                           trace := SnapshotWritten ctx # Call StorageState # trace w\<rparr>))"
  by (simp add: storageStateTo_def run split: option.splits)

lemma wp_storageStateTo [wp_intros]:
  assumes "quiet Q"
    and "\<And>s c tr. N () (filter Q [SnapshotWritten ctx]) (w\<lparr>clock := c, storageState := Some s, trace := tr\<rparr>)"
    and "\<And>err c tr. X err [] (w\<lparr>clock := c, trace := tr\<rparr>)"
  shows "wp Q e (storageStateTo ctx) N X w"
proof (cases "rejection e (clock w)")
  case None
  have "N () (filter Q [SnapshotWritten ctx])
          (w\<lparr>clock := Suc (clock w), storageState := Some (snapshot e (clock w)),
             trace := SnapshotWritten ctx # Call StorageState # trace w\<rparr>)"
    by (rule assms(2))
  then show ?thesis
    by (intro wpI [of _ _ _ _ "filter Q [SnapshotWritten ctx]"])
       (simp_all add: storageStateTo_run None quiet_Call [OF assms(1)])
next
  case (Some msg)
  have "X (Error msg) [] (w\<lparr>clock := Suc (clock w), trace := Call StorageState # trace w\<rparr>)"
    by (rule assms(3))
  then show ?thesis
    by (intro wpI [of _ _ _ _ "[]"])
       (simp_all add: storageStateTo_run Some quiet_Call [OF assms(1)])
qed

lemma quiet_sessionEvent: "quiet sessionEvent"
  unfolding quiet_def by (auto elim: chatter.elims)

lemma loginAndSnapshot_log:
  "wp sessionEvent e (loginAndSnapshot ctx cr page)
     (\<lambda>u n w'. uiPassed page ctx n) (\<lambda>err n w'. uiChecks page ctx n) w"
  unfolding loginAndSnapshot_def
  by (intro wp_intros quiet_sessionEvent; simp)

lemma wp_openedPage:
  assumes "\<And>tr. N (length (pages w)) (filter Q [PageOpened (length (pages w)) ctx])
                   (w\<lparr>pages := pages w @ [(ctx, True)], trace := tr\<rparr>)"
  shows "wp Q e (openedPage ctx) N X w"
proof -
  have "N (length (pages w)) (filter Q [PageOpened (length (pages w)) ctx])
          (w\<lparr>pages := pages w @ [(ctx, True)],
             trace := PageOpened (length (pages w)) ctx # trace w\<rparr>)"
    by (rule assms)
  then show ?thesis
    by (intro wpI [of _ _ _ _ "filter Q [PageOpened (length (pages w)) ctx]"])
       (simp_all add: openedPage_def)
qed

lemma wp_newPage [wp_intros]:
  assumes "quiet Q"
    and "\<And>c tr. N (length (pages w)) (filter Q [PageOpened (length (pages w)) ctx])
                     (w\<lparr>clock := c, pages := pages w @ [(ctx, True)], trace := tr\<rparr>)"
    and "\<And>err c tr. X err [] (w\<lparr>clock := c, trace := tr\<rparr>)"
  shows "wp Q e (newPage ctx) N X w"
  unfolding newPage_def
  by (intro wp_seq wp_perform wp_openedPage assms(1)) (use assms(2,3) in simp_all)

lemma wp_openedContext:
  assumes "\<And>tr. N (length (contexts w)) (filter Q [ContextOpened (length (contexts w)) s])
                   (w\<lparr>contexts := contexts w @ [True], trace := tr\<rparr>)"
  shows "wp Q e (openedContext s) N X w"
proof -
  have "N (length (contexts w)) (filter Q [ContextOpened (length (contexts w)) s])
          (w\<lparr>contexts := contexts w @ [True],
             trace := ContextOpened (length (contexts w)) s # trace w\<rparr>)"
    by (rule assms)
  then show ?thesis
    by (intro wpI [of _ _ _ _ "filter Q [ContextOpened (length (contexts w)) s]"])
       (simp_all add: openedContext_def)
qed

lemma wp_newContext [wp_intros]:
  assumes "quiet Q"
    and "\<And>c tr. N (length (contexts w)) (filter Q [ContextOpened (length (contexts w)) s])
                     (w\<lparr>clock := c, contexts := contexts w @ [True], trace := tr\<rparr>)"
    and "\<And>err c tr. X err [] (w\<lparr>clock := c, trace := tr\<rparr>)"
  shows "wp Q e (newContext s) N X w"
  unfolding newContext_def
  by (intro wp_seq wp_perform wp_openedContext assms(1)) (use assms(2,3) in simp_all)

lemma wp_closePage [wp_intros]:
  assumes "quiet Q"
    and "\<And>c tr. N () [] (w\<lparr>pages := (pages w)[p := (fst (pages w ! p), False)],
                            clock := c, trace := tr\<rparr>)"
    and "\<And>err c tr. X err [] (w\<lparr>pages := (pages w)[p := (fst (pages w ! p), False)],
                                clock := c, trace := tr\<rparr>)"
  shows "wp Q e (closePage p) N X w"
proof -
  let ?w' = "w\<lparr>pages := (pages w)[p := (fst (pages w ! p), False)],
                clock := Suc (clock w), trace := Call (ClosePage p) # trace w\<rparr>"
  have n: "N () [] ?w'" by (rule assms(2))
  have x: "X err [] ?w'" for err by (rule assms(3))
  show ?thesis
    by (rule wpI [of _ _ _ _ "[]"])
       (simp_all add: closePage_def run quiet_Call [OF assms(1)] n x split: option.splits)
qed

lemma wp_closeContext [wp_intros]:
  assumes "quiet Q"
    and "\<And>c tr. N () [] (w\<lparr>contexts := (contexts w)[ctx := False],
                            pages := closed_by ctx (pages w), clock := c, trace := tr\<rparr>)"
    and "\<And>err c tr. X err [] (w\<lparr>contexts := (contexts w)[ctx := False],
                                pages := closed_by ctx (pages w), clock := c, trace := tr\<rparr>)"
  shows "wp Q e (closeContext ctx) N X w"
proof -
  let ?w' = "w\<lparr>contexts := (contexts w)[ctx := False],
                pages := closed_by ctx (pages w), clock := Suc (clock w),
                trace := Call (CloseContext ctx) # trace w\<rparr>"
  have n: "N () [] ?w'" by (rule assms(2))
  have x: "X err [] ?w'" for err by (rule assms(3))
  show ?thesis
    by (rule wpI [of _ _ _ _ "[]"])
       (use n x in \<open>simp_all add: closeContext_def closed_by_def run quiet_Call [OF assms(1)]
                 split: option.splits\<close>)
qed

lemma wp_assign [wp_intros]:
  "N () [] (w\<lparr>locals := (locals w)(name := v)\<rparr>) \<Longrightarrow> wp Q e (assign name v) N X w"
  unfolding assign_def by (rule wp_modify) simp

lemma wp_deref [wp_intros]: "N (locals w name) [] w \<Longrightarrow> wp Q e (deref name) N X w"
  unfolding deref_def by (rule wp_inspect)

lemma wp_loginAndSnapshot:
  assumes "\<And>n w'. uiPassed page ctx n \<Longrightarrow> N () n w'"
    and "\<And>err n w'. uiChecks page ctx n \<Longrightarrow> X err n w'"
  shows "wp sessionEvent e (loginAndSnapshot ctx cr page) N X w"
  by (rule wp_weaken [OF loginAndSnapshot_log]) (simp_all add: assms)

lemma uiPassed_uiChecks: "uiPassed p ctx n \<Longrightarrow> uiChecks p ctx n"
  by (induction p ctx n rule: uiPassed.induct) (auto split: if_splits)

lemma createAuthenticatedSession_log:
  "wp sessionEvent e (createAuthenticatedSession ctx cr)
     (\<lambda>u n w'. uiSession (length (pages w)) ctx True n)
     (\<lambda>err n w'. uiSession (length (pages w)) ctx False n) w"
  unfolding createAuthenticatedSession_def traced_def
  by (intro wp_intros wp_loginAndSnapshot quiet_sessionEvent)
     (simp_all add: uiPassed_uiChecks)

lemma wp_property [wp_intros]:
  assumes "\<And>x. N x [] w" and "\<And>err. X err [] w"
  shows "wp Q e (property v k) N X w"
  by (cases "field v k") (simp_all add: property_def wp_return wp_throw assms)

lemma wp_optional [wp_intros]:
  assumes "\<And>x. N x [] w" and "\<And>err. X err [] w"
  shows "wp Q e (optional v k) N X w"
  by (cases v) (simp_all add: optional_def wp_return wp_property assms)

subsection \<open>The logged-in validator\<close>

text \<open>
  C2, as amended. \<^verbatim>\<open>LoginPage.isLoggedIn\<close> never throws, and it returns true exactly when
  its initial wait resolves, the probe of the profile, of the settings or of the
  new-article link resolves and reports its link visible, and the probe of the sign-in link
  does not resolve with a visible link. Each probe is guarded by \<^verbatim>\<open>.catch(() => false)\<close>, so
  a probe that rejects counts as a link that is not visible, whatever the page shows; the
  body is guarded by \<^verbatim>\<open>catch { return false }\<close>, so a wait that rejects gives false.
\<close>

theorem isLoggedIn_verdict:
  "fst (isLoggedIn page e w) =
     Inr (rejection e (clock w) = None
          \<and> (seen e ProfileLink (clock w + 1) \<or> seen e SettingsLink (clock w + 2)
               \<or> seen e NewArticleLink (clock w + 3))
          \<and> \<not> seen e SignInLink (clock w + 4))"
  by (auto simp: isLoggedIn_def probeMarkers_def seen_def run eval_nat_numeral
           split: option.splits sum.splits)

text \<open>When no call rejects, the verdict is the one on the visibility of the markers.\<close>

lemma isLoggedIn_no_rejection:
  assumes "\<forall>t. rejection e t = None"
  shows "fst (isLoggedIn page e w) =
           Inr ((markerVisible e ProfileLink (clock w + 1)
                   \<or> markerVisible e SettingsLink (clock w + 2)
                   \<or> markerVisible e NewArticleLink (clock w + 3))
                \<and> \<not> markerVisible e SignInLink (clock w + 4))"
  using assms by (simp add: isLoggedIn_fst loggedInAt_def seen_def)

text \<open>
  C2 as stated fails in both directions. Where every marker is visible, the sign-in link
  among them, and the probe of the sign-in link rejects, the validator returns true. Where
  the profile link is visible, the sign-in link is not, and the initial wait rejects, it
  returns false.
\<close>

theorem isLoggedIn_rejected_probe:
  "markerVisible probe_rejects_env ProfileLink 1
   \<and> markerVisible probe_rejects_env SignInLink 4
   \<and> fst (isLoggedIn 0 probe_rejects_env fresh_world) = Inr True
   \<and> markerVisible wait_rejects_env ProfileLink 1
   \<and> \<not> markerVisible wait_rejects_env SignInLink 4
   \<and> fst (isLoggedIn 0 wait_rejects_env fresh_world) = Inr False"
  by (simp add: isLoggedIn_fst loggedInAt_def seen_def probe_rejects_env_def
                wait_rejects_env_def signed_in_env_def quiet_env_def fresh_world_def)

subsection \<open>The credentials cache\<close>

lemma getStoredCredentials_result:
  "fst (getStoredCredentials e w) =
     Inr (case credentialsFile w of
            Some (Holds j) \<Rightarrow>
              (case field j ''email'' of
                 Inr em \<Rightarrow>
                   (case field j ''password'' of
                      Inr pw \<Rightarrow>
                        if truthy em \<and> truthy pw
                        then Some \<lparr>email = the em, password = the pw\<rparr> else None
                    | Inl err \<Rightarrow> None)
               | Inl err \<Rightarrow> None)
          | _ \<Rightarrow> None)"
  by (auto simp: getStoredCredentials_def readFileSync_def JSON_parse_def property_def run
           split: option.splits sum.splits cache_file.splits)

lemma truthy_Some: "truthy v \<Longrightarrow> \<exists>x. v = Some x"
  by (cases v) auto

lemma fsRequest_run:
  "fsRequest request e w =
     (case refusal w request of Some msg \<Rightarrow> Inl (Error msg) | None \<Rightarrow> Inr (), w)"
  by (simp add: fsRequest_def split: option.splits)

lemma ensureStorageDirectory_run:
  "ensureStorageDirectory e w =
     (if storageDir w then (Inr (), w)
      else case refusal w MakeDirectory of
             Some msg \<Rightarrow> (Inl (Error msg), w)
           | None \<Rightarrow> (Inr (), w\<lparr>storageDir := True, trace := DirectoryCreated # trace w\<rparr>))"
  by (simp add: ensureStorageDirectory_def run fsRequest_run split: option.splits)

lemma ensureStorageDirectory_file:
  "credentialsFile (snd (ensureStorageDirectory e w)) = credentialsFile w"
  "refusal (snd (ensureStorageDirectory e w)) = refusal w"
  by (simp_all add: ensureStorageDirectory_run split: option.splits)




text \<open>
  C10. \<^verbatim>\<open>SessionManager.getStoredCredentials\<close> never throws. It returns null when the
  credentials file is absent, unreadable or malformed, or holds a value without an email
  or without a password. When it returns a record, the file holds a value with both
  fields, and the record carries exactly those two values.
\<close>

theorem getStoredCredentials_total:
  "(\<exists>r. fst (getStoredCredentials e w) = Inr r)
   \<and> (credentialsFile w = None \<longrightarrow> fst (getStoredCredentials e w) = Inr None)
   \<and> (credentialsFile w = Some Unreadable \<longrightarrow> fst (getStoredCredentials e w) = Inr None)
   \<and> (credentialsFile w = Some Malformed \<longrightarrow> fst (getStoredCredentials e w) = Inr None)
   \<and> (\<forall>j. credentialsFile w = Some (Holds j)
          \<and> (field j ''email'' = Inr None \<or> field j ''password'' = Inr None)
        \<longrightarrow> fst (getStoredCredentials e w) = Inr None)
   \<and> (\<forall>c. fst (getStoredCredentials e w) = Inr (Some c)
        \<longrightarrow> (\<exists>j. credentialsFile w = Some (Holds j)
               \<and> field j ''email'' = Inr (Some (email c))
               \<and> field j ''password'' = Inr (Some (password c))))"
  by (auto simp: getStoredCredentials_result dest!: truthy_Some
           split: option.splits sum.splits cache_file.splits if_splits)

theorem getStoredCredentials_total_witness:
  "fst (getStoredCredentials quiet_env (fresh_world\<lparr>credentialsFile := Some Malformed\<rparr>)) = Inr None
   \<and> fst (getStoredCredentials quiet_env
            (fresh_world\<lparr>credentialsFile := Some (Holds (JObj [(''email'', JStr ''user_12@test.com'')]))\<rparr>))
       = Inr None
   \<and> fst (getStoredCredentials quiet_env (fresh_world\<lparr>credentialsFile := Some (Holds user_12_json)\<rparr>))
       = Inr (Some user_12)"
proof -
  let ?partial = "JObj [(''email'', JStr ''user_12@test.com'')]"
  have "fst (getStoredCredentials quiet_env (fresh_world\<lparr>credentialsFile := Some Malformed\<rparr>)) = Inr None"
    using getStoredCredentials_total
            [of quiet_env "fresh_world\<lparr>credentialsFile := Some Malformed\<rparr>"]
    by simp
  moreover have "fst (getStoredCredentials quiet_env
            (fresh_world\<lparr>credentialsFile := Some (Holds ?partial)\<rparr>)) = Inr None"
    using getStoredCredentials_total
            [of quiet_env "fresh_world\<lparr>credentialsFile := Some (Holds ?partial)\<rparr>"]
    by simp
  moreover have "fst (getStoredCredentials quiet_env
            (fresh_world\<lparr>credentialsFile := Some (Holds user_12_json)\<rparr>)) = Inr (Some user_12)"
    by (simp add: getStoredCredentials_result user_12_json_def user_12_def)
  ultimately show ?thesis by simp
qed




subsection \<open>The session establishers and the logged-in check\<close>

lemma emitted_append: "trace w' = tr @ trace w \<Longrightarrow> emitted Q w w' = filter Q (rev tr)"
  by (simp add: emitted_def rev_filter)

lemma only_unwritten:
  assumes "only P W f m" and "\<And>ev. W ev \<Longrightarrow> Q ev"
    and "\<forall>ev \<in> set (emitted Q w (snd (m e w))). \<not> W ev"
  shows "f (snd (m e w)) = f w"
proof -
  from assms(1) obtain tr where tr: "trace (snd (m e w)) = tr @ trace w"
      "list_all (\<lambda>ev. \<not> W ev) tr \<longrightarrow> f (snd (m e w)) = f w"
    unfolding only_def frame_def by blast
  have "emitted Q w (snd (m e w)) = filter Q (rev tr)" by (rule emitted_append [OF tr(1)])
  with assms(2,3) have "list_all (\<lambda>ev. \<not> W ev) tr" by (auto simp: list_all_iff)
  with tr(2) show ?thesis by simp
qed

lemma uiPassed_verdict: "uiPassed p ctx n \<Longrightarrow> Verdict p True \<in> set n"
  by (induction p ctx n rule: uiPassed.induct) (auto split: if_splits)

lemma uiChecks_written:
  "uiChecks p ctx n \<Longrightarrow> SnapshotWritten c \<in> set n \<Longrightarrow> Verdict p True \<in> set n"
  by (induction p ctx n rule: uiChecks.induct) (auto split: if_splits)

lemma createAuthenticatedSession_storageState:
  assumes "SnapshotWritten ctx \<notin> set (emitted sessionEvent w (snd (createAuthenticatedSession ctx cr e w)))"
  shows "storageState (snd (createAuthenticatedSession ctx cr e w)) = storageState w"
proof (rule only_unwritten [where W = "\<lambda>ev. ev = SnapshotWritten ctx" and Q = sessionEvent
                              and P = "\<lambda>ev. True"])
  show "only (\<lambda>ev. True) (\<lambda>ev. ev = SnapshotWritten ctx) storageState
          (createAuthenticatedSession ctx cr)"
    by (rule only_createAuthenticatedSession) (simp_all add: stable_def)
  show "\<And>ev. ev = SnapshotWritten ctx \<Longrightarrow> sessionEvent ev" by simp
  show "\<forall>ev\<in>set (emitted sessionEvent w (snd (createAuthenticatedSession ctx cr e w))).
          ev \<noteq> SnapshotWritten ctx"
    using assms by auto
qed

lemma uiSessionD:
  "uiSession p ctx passed n \<Longrightarrow>
   (n = [] \<and> \<not> passed)
   \<or> (\<exists>rest. n = PageOpened p ctx # rest
          \<and> (if passed then uiPassed p ctx rest else uiChecks p ctx rest))"
  by (cases "(p, ctx, passed, n)" rule: uiSession.cases) auto

text \<open>
  The UI-driven establisher \<^verbatim>\<open>SessionManager.createAuthenticatedSession\<close> checks before it
  writes. A run in which the page cannot be opened throws and leaves the snapshot file as
  it was. In every other run the snapshot file is written at most once, directly after a
  call of \<^verbatim>\<open>isLoggedIn\<close> on the establisher's page that returned true, and nothing is checked
  or written after it. A run that returns normally has such a passing check followed by the
  write. A run without a passing check throws, writes nothing and leaves the snapshot file
  as it was.
\<close>

theorem ui_snapshot_after_check:
  "(emitted sessionEvent w (snd (createAuthenticatedSession ctx cr e w)) = []
      \<and> (\<exists>err. fst (createAuthenticatedSession ctx cr e w) = Inl err)
      \<and> storageState (snd (createAuthenticatedSession ctx cr e w)) = storageState w)
   \<or> (\<exists>rest. emitted sessionEvent w (snd (createAuthenticatedSession ctx cr e w))
                = PageOpened (length (pages w)) ctx # rest
        \<and> uiChecks (length (pages w)) ctx rest
        \<and> (fst (createAuthenticatedSession ctx cr e w) = Inr () \<longrightarrow>
             uiPassed (length (pages w)) ctx rest)
        \<and> (Verdict (length (pages w)) True \<notin> set rest \<longrightarrow>
             (\<exists>err. fst (createAuthenticatedSession ctx cr e w) = Inl err)
             \<and> SnapshotWritten ctx \<notin> set rest
             \<and> storageState (snd (createAuthenticatedSession ctx cr e w)) = storageState w))"
proof -
  let ?r = "createAuthenticatedSession ctx cr e w"
  let ?n = "emitted sessionEvent w (snd ?r)"
  let ?p = "length (pages w)"
  have c: "case fst ?r of Inr x \<Rightarrow> uiSession ?p ctx True ?n
                        | Inl err \<Rightarrow> uiSession ?p ctx False ?n"
    by (rule wp_emitted [OF createAuthenticatedSession_log])
  have s: "storageState (snd ?r) = storageState w" if "SnapshotWritten ctx \<notin> set ?n"
    by (rule createAuthenticatedSession_storageState) (rule that)
  show ?thesis
  proof (cases "?n = []")
    case True
    with c have "\<exists>err. fst ?r = Inl err" by (cases "fst ?r") auto
    moreover have "storageState (snd ?r) = storageState w" by (rule s) (simp add: True)
    ultimately show ?thesis using True by simp
  next
    case False
    from c obtain passed where "uiSession ?p ctx passed ?n"
      by (auto split: sum.splits)
    from uiSessionD [OF this] False
    obtain rest where n: "?n = PageOpened ?p ctx # rest" and u: "uiChecks ?p ctx rest"
      by (auto simp: uiPassed_uiChecks split: if_splits)
    have p: "uiPassed ?p ctx rest" if "fst ?r = Inr ()"
      using c that n by simp
    have v: "Verdict ?p True \<in> set rest" if "fst ?r = Inr x" for x
      using p that by (simp add: uiPassed_verdict)
    have "Verdict ?p True \<notin> set rest \<longrightarrow>
            (\<exists>err. fst ?r = Inl err) \<and> SnapshotWritten ctx \<notin> set rest
            \<and> storageState (snd ?r) = storageState w"
      using v s n uiChecks_written [OF u, of ctx] by (cases "fst ?r") auto
    with n u p show ?thesis by blast
  qed
qed

theorem ui_snapshot_after_check_witness:
  "fst (createAuthenticatedSession 0 user_12 signed_in_env one_context) = Inr ()
   \<and> emitted sessionEvent one_context
         (snd (createAuthenticatedSession 0 user_12 signed_in_env one_context))
       = [PageOpened 0 0, Verdict 0 True, SnapshotWritten 0]
   \<and> uiPassed 0 0 [Verdict 0 True, SnapshotWritten 0]
   \<and> emitted sessionEvent one_context
         (snd (createAuthenticatedSession 0 user_12 quiet_env one_context))
       = [PageOpened 0 0, Verdict 0 False, Verdict 0 False]
   \<and> (\<exists>err. fst (createAuthenticatedSession 0 user_12 quiet_env one_context) = Inl err)
   \<and> storageState (snd (createAuthenticatedSession 0 user_12 quiet_env one_context))
       = storageState one_context"
proof -
  have ok: "fst (createAuthenticatedSession 0 user_12 signed_in_env one_context) = Inr ()"
    by (simp add: ui_defs combinators inputs)
  have passed: "emitted sessionEvent one_context
         (snd (createAuthenticatedSession 0 user_12 signed_in_env one_context))
       = [PageOpened 0 0, Verdict 0 True, SnapshotWritten 0]"
    by (simp add: ui_defs combinators inputs emitted_def)
  have failed: "emitted sessionEvent one_context
         (snd (createAuthenticatedSession 0 user_12 quiet_env one_context))
       = [PageOpened 0 0, Verdict 0 False, Verdict 0 False]"
    by (simp add: ui_defs combinators inputs emitted_def)
  have pages: "length (pages one_context) = 0"
    by (simp add: inputs)
  from ui_snapshot_after_check [of one_context 0 user_12 signed_in_env] ok passed pages
  have "uiPassed 0 0 [Verdict 0 True, SnapshotWritten 0]" by auto
  moreover
  from ui_snapshot_after_check [of one_context 0 user_12 quiet_env] failed pages
  have "(\<exists>err. fst (createAuthenticatedSession 0 user_12 quiet_env one_context) = Inl err)
        \<and> storageState (snd (createAuthenticatedSession 0 user_12 quiet_env one_context))
            = storageState one_context"
    by auto
  ultimately show ?thesis using ok passed failed by simp
qed

text \<open>
  C1. The API-driven establisher \<^verbatim>\<open>SessionManager.createAuthenticatedSessionViaAPI\<close> writes
  the snapshot without the check that the UI-driven establisher makes before each of its
  writes: it never calls \<^verbatim>\<open>isLoggedIn\<close>, and its only guard is the token of the login
  response. Where the endpoint hands out a token and the page shows no marker of a
  signed-in user, it returns normally and has written the snapshot, with no verdict in its
  log; the validator, asked right after on the same page, answers false.
\<close>

theorem api_snapshot_without_check:
  "fst (createAuthenticatedSessionViaAPI 0 user_12 quiet_env one_context) = Inr ()
   \<and> storageState (snd (createAuthenticatedSessionViaAPI 0 user_12 quiet_env one_context))
       = Some ''cookies and localStorage''
   \<and> emitted sessionEvent one_context
         (snd (createAuthenticatedSessionViaAPI 0 user_12 quiet_env one_context))
       = [PageOpened 0 0, SnapshotWritten 0]
   \<and> fst (isLoggedIn 0 quiet_env
              (snd (createAuthenticatedSessionViaAPI 0 user_12 quiet_env one_context)))
       = Inr False"
  by (simp add: api_defs isLoggedIn_def probeMarkers_def combinators inputs emitted_def)

subsection \<open>Reuse of the cache\<close>

lemma getStoredCredentials_quiet:
  assumes "fst (getStoredCredentials e w) = Inr (Some c)"
  shows "snd (getStoredCredentials e w) = w"
proof (cases "credentialsFile w")
  case None
  then show ?thesis by (simp add: getStoredCredentials_def run)
next
  case (Some f)
  from assms Some obtain j where j: "f = Holds j"
    by (cases f) (simp_all add: getStoredCredentials_result)
  from assms Some j obtain em where em: "field j ''email'' = Inr em"
    by (cases "field j ''email''") (simp_all add: getStoredCredentials_result)
  from assms Some j em obtain pw where pw: "field j ''password'' = Inr pw"
    by (cases "field j ''password''") (simp_all add: getStoredCredentials_result)
  show ?thesis
    by (simp add: getStoredCredentials_def readFileSync_def JSON_parse_def property_def run
                  Some j em pw)
qed

text \<open>
  C7. Where the snapshot file exists and \<^verbatim>\<open>REFRESH_STORAGE_STATE\<close> is not set,
  \<^verbatim>\<open>ensureStorageState\<close> returns at once: it calls no establisher, issues no call and changes
  nothing. Where the cache directory exists, the credentials file holds a record that
  \<^verbatim>\<open>getStoredCredentials\<close> accepts, and \<^verbatim>\<open>FORCE_NEW_USER\<close> is not set, the fixture
  \<^verbatim>\<open>testCredentials\<close> returns that record: it runs no signup, issues no call and changes
  nothing. Both leave the world as it was, so calling them again does the same.
\<close>

theorem cache_reuse:
  "(storageState w \<noteq> None \<and> \<not> flag ''REFRESH_STORAGE_STATE'' e
      \<longrightarrow> ensureStorageState cr e w = (Inr (), w))
   \<and> (storageDir w \<and> fst (getStoredCredentials e w) = Inr (Some c)
        \<and> \<not> flag ''FORCE_NEW_USER'' e
      \<longrightarrow> testCredentials e w = (Inr c, w))"
proof (intro conjI impI)
  assume "storageState w \<noteq> None \<and> \<not> flag ''REFRESH_STORAGE_STATE'' e"
  then show "ensureStorageState cr e w = (Inr (), w)"
    by (simp add: ensureStorageState_def storageStateExists_def bind_run reader_run inspect_run
                  return_run)
next
  assume a: "storageDir w \<and> fst (getStoredCredentials e w) = Inr (Some c)
             \<and> \<not> flag ''FORCE_NEW_USER'' e"
  then have s: "snd (getStoredCredentials e w) = w"
    by (simp add: getStoredCredentials_quiet)
  have d: "ensureStorageDirectory e w = (Inr (), w)"
    using a by (simp add: ensureStorageDirectory_run)
  show "testCredentials e w = (Inr c, w)"
    unfolding testCredentials_def
    by (subst seq_run, simp only: d fst_conv snd_conv sum.case,
        subst bind_run, simp only: a s sum.case,
        subst bind_run, simp only: reader_run fst_conv snd_conv sum.case,
        subst bind_run, simp only: reader_run fst_conv snd_conv sum.case)
       (simp add: a return_run)
qed

theorem cache_reuse_witness:
  "storageState cached_world \<noteq> None \<and> \<not> flag ''REFRESH_STORAGE_STATE'' quiet_env
   \<and> storageDir cached_world
   \<and> fst (getStoredCredentials quiet_env cached_world) = Inr (Some user_12)
   \<and> \<not> flag ''FORCE_NEW_USER'' quiet_env
   \<and> ensureStorageState user_12 quiet_env cached_world = (Inr (), cached_world)
   \<and> testCredentials quiet_env cached_world = (Inr user_12, cached_world)"
proof -
  have s: "storageState cached_world \<noteq> None \<and> \<not> flag ''REFRESH_STORAGE_STATE'' quiet_env"
    by (simp add: cached_world_def fresh_world_def flag_def quiet_env_def)
  have c: "storageDir cached_world
           \<and> fst (getStoredCredentials quiet_env cached_world) = Inr (Some user_12)
           \<and> \<not> flag ''FORCE_NEW_USER'' quiet_env"
    by (simp add: getStoredCredentials_result cached_world_def fresh_world_def flag_def
                  quiet_env_def user_12_json_def user_12_def)
  from cache_reuse [of cached_world quiet_env user_12 user_12] s c show ?thesis by blast
qed

subsection \<open>Browser resources\<close>

lemma stable_browser: "stable browser"
  by (simp add: stable_def browser_def)

lemma quiet_none: "quiet (\<lambda>ev. False)"
  by (simp add: quiet_def)

lemma loginAndSnapshot_browser:
  assumes "\<And>w'. browser w' = browser w \<Longrightarrow> N () [] w'"
    and "\<And>err w'. browser w' = browser w \<Longrightarrow> X err [] w'"
  shows "wp (\<lambda>ev. False) e (loginAndSnapshot ctx cr page) N X w"
proof (rule wp_only [where f = browser and P = "uiEvent ctx"])
  show "only (uiEvent ctx) (\<lambda>ev. False) browser (loginAndSnapshot ctx cr page)"
    by (rule only_loginAndSnapshot) (simp_all add: stable_browser browser_def)
qed (simp_all add: assms)

lemma ApiHelper_login_browser:
  assumes "\<And>x w'. browser w' = browser w \<Longrightarrow> N x [] w'"
    and "\<And>err w'. browser w' = browser w \<Longrightarrow> X err [] w'"
  shows "wp (\<lambda>ev. False) e (ApiHelper_login cr) N X w"
proof (rule wp_only [where f = browser and P = "\<lambda>ev. True"])
  show "only (\<lambda>ev. True) (\<lambda>ev. False) browser (ApiHelper_login cr)"
    by (rule only_ApiHelper_login) (simp_all add: stable_browser browser_def)
qed (simp_all add: assms)

lemma createAuthenticatedSession_settled:
  assumes "\<And>n w'. settled ctx w w' \<Longrightarrow> N () n w'"
    and "\<And>err n w'. settled ctx w w' \<Longrightarrow> X err n w'"
  shows "wp (\<lambda>ev. False) e (createAuthenticatedSession ctx cr) N X w"
  unfolding createAuthenticatedSession_def traced_def
  by (intro wp_intros loginAndSnapshot_browser quiet_none;
      (rule assms)?; simp add: settled_def browser_def)

lemma createAuthenticatedSessionViaAPI_settled:
  assumes "\<And>n w'. settled ctx w w' \<Longrightarrow> N () n w'"
    and "\<And>err n w'. settled ctx w w' \<Longrightarrow> X err n w'"
  shows "wp (\<lambda>ev. False) e (createAuthenticatedSessionViaAPI ctx cr) N X w"
  unfolding createAuthenticatedSessionViaAPI_def traced_def injectAndSnapshot_def
  by (intro wp_intros ApiHelper_login_browser quiet_none;
      (rule assms)?; simp add: settled_def browser_def)

lemma update_second: "(xs @ [a, b])[Suc (length xs) := c] = xs @ [a, c]"
  by (simp add: list_update_append)

lemma update_first: "(xs @ [a, b])[length xs := c] = xs @ [c, b]"
  by (simp add: list_update_append)

lemma bootstrapStorageState_released:
  "wp (\<lambda>ev. False) e (bootstrapStorageState cr)
     (\<lambda>u n w'. released w w') (\<lambda>err n w'. released w w') w"
  unfolding bootstrapStorageState_def traced_def
  apply (intro wp_intros createAuthenticatedSession_settled
               createAuthenticatedSessionViaAPI_settled quiet_none)
  apply (auto simp: settled_def released_def closed_by_def update_first update_second)
  done

lemma settled_released: "settled ctx w w' \<Longrightarrow> released w w'"
  by (auto simp: settled_def released_def)

text \<open>
  C9. Every context and every page that \<^verbatim>\<open>bootstrapStorageState\<close> opens is closed when it
  exits, whether it returns or throws, and so is the page that either establisher opens:
  \<^verbatim>\<open>close\<close> has been called on it or, for a page, on the context that owns it. The
  contexts that were there before are as they were.
\<close>

theorem resources_released:
  "released w (snd (bootstrapStorageState cr e w))
   \<and> released w (snd (createAuthenticatedSession ctx cr e w))
   \<and> released w (snd (createAuthenticatedSessionViaAPI ctx cr e w))"
proof -
  have "case fst (bootstrapStorageState cr e w) of
          Inr x \<Rightarrow> released w (snd (bootstrapStorageState cr e w))
        | Inl err \<Rightarrow> released w (snd (bootstrapStorageState cr e w))"
    by (rule wp_emitted [OF bootstrapStorageState_released])
  then have a: "released w (snd (bootstrapStorageState cr e w))"
    by (simp split: sum.splits)
  have "wp (\<lambda>ev. False) e (createAuthenticatedSession ctx cr)
          (\<lambda>u n w'. released w w') (\<lambda>err n w'. released w w') w"
    by (rule createAuthenticatedSession_settled) (simp_all add: settled_released)
  from wp_emitted [OF this]
  have b: "released w (snd (createAuthenticatedSession ctx cr e w))"
    by (simp split: sum.splits)
  have "wp (\<lambda>ev. False) e (createAuthenticatedSessionViaAPI ctx cr)
          (\<lambda>u n w'. released w w') (\<lambda>err n w'. released w w') w"
    by (rule createAuthenticatedSessionViaAPI_settled) (simp_all add: settled_released)
  from wp_emitted [OF this]
  have c: "released w (snd (createAuthenticatedSessionViaAPI ctx cr e w))"
    by (simp split: sum.splits)
  from a b c show ?thesis by simp
qed

text \<open>A run: one context and one page are opened, and both are closed at the end.\<close>

lemma resources_released_run:
  "contexts (snd (bootstrapStorageState user_12 quiet_env fresh_world)) = [False]
   \<and> pages (snd (bootstrapStorageState user_12 quiet_env fresh_world)) = [(0, False)]
   \<and> fst (bootstrapStorageState user_12 quiet_env fresh_world) = Inr ()"
  by (simp add: bootstrap_defs api_defs combinators inputs)

subsection \<open>The order of the strategies\<close>










end
